theory Spec2Isabelle
  imports Complex_Main "HOL-Library.Multiset"
begin

section \<open>Residue contact prediction pipeline (acids\_classification.ipynb)\<close>

text \<open>
  The notebook is a linear script: download PDB files, parse them into sequences and
  contact maps, split the data, embed, train a convolutional head, and aggregate the
  contact maps of similar sequences. Each cell that carries logic is embedded below as a
  HOL function. A floating-point value is modelled as the real number it denotes, and a
  floating-point operation as the exact operation followed by rounding to nearest, ties to
  even, at the precision of the format: 53 bits for the doubles of the distance matrix and
  of \<open>int(0.7 * n)\<close>, 24 bits for the float32 mean of contact maps. What the notebook
  leaves to the build of a library is a parameter of the model: the order in which NumPy
  adds the arrays of a mean, its treatment of arrays of different shapes, and the float32
  kernels of the tensor library's convolution and sigmoid.
\<close>

subsection \<open>Python exceptions\<close>

datatype py_exception =
    RequestException string
  | OSError string
  | KeyError string
  | IndexError
  | AttributeError string
  | ValueError string
  | ZeroDivisionError
  | AssertionError string
  | RuntimeError string
  | OtherException string

text \<open>\<open>requests.exceptions.RequestException\<close> is the only class the download loop
  catches. Connection errors and the \<open>HTTPError\<close> of \<open>raise_for_status\<close> are
  instances of it; a plain \<open>OSError\<close> (raised by \<open>open\<close> or \<open>write\<close>) is not.\<close>

fun is_RequestException :: "py_exception \<Rightarrow> bool" where
  "is_RequestException (RequestException _) = True"
| "is_RequestException _ = False"

subsection \<open>Rounding to nearest, ties to even\<close>

text \<open>\<open>int.bit_length\<close>: the number of binary digits of a natural number.\<close>

fun bit_length :: "nat \<Rightarrow> nat" where
  "bit_length n = (if n = 0 then 0 else Suc (bit_length (n div 2)))"

declare bit_length.simps [simp del]

text \<open>
  The binary exponent of a non-zero real \<open>x\<close>, that is the \<open>e\<close> with
  \<open>2^e \<le> |x| < 2^(e+1)\<close>, computed from the integer part of \<open>|x|\<close> or of its
  reciprocal.
\<close>

definition expo :: "real \<Rightarrow> int" where
  "expo x =
     (if 1 \<le> \<bar>x\<bar> then int (bit_length (nat \<lfloor>\<bar>x\<bar>\<rfloor>)) - 1
      else - int (bit_length (nat (\<lceil>1 / \<bar>x\<bar>\<rceil> - 1))))"

definition round_half_even :: "real \<Rightarrow> int" where
  "round_half_even y =
     (let f = \<lfloor>y\<rfloor>; r = y - of_int f
      in if r < 1 / 2 then f else if 1 / 2 < r then f + 1 else if even f then f else f + 1)"

text \<open>
  \<open>round_to p x\<close> is the binary floating-point number with \<open>p\<close> significant bits
  nearest to \<open>x\<close>. The exponent range is not bounded: overflow and underflow are left
  out. For the distance test below this changes nothing, because a sum of squares that
  overflows or underflows lies on the same side of 64 as its exact value.
\<close>

definition round_to :: "nat \<Rightarrow> real \<Rightarrow> real" where
  "round_to p x =
     (if x = 0 then 0
      else let s = 2 powi (expo x - int p + 1)
           in of_int (round_half_even (x / s)) * s)"

text \<open>The operations on doubles that the distance matrix uses, and those on float32 that
  the mean of contact maps uses.\<close>

definition fsub :: "real \<Rightarrow> real \<Rightarrow> real" where
  "fsub x y = round_to 53 (x - y)"

definition fadd :: "real \<Rightarrow> real \<Rightarrow> real" where
  "fadd x y = round_to 53 (x + y)"

definition fmul :: "real \<Rightarrow> real \<Rightarrow> real" where
  "fmul x y = round_to 53 (x * y)"

definition fsqrt :: "real \<Rightarrow> real" where
  "fsqrt x = round_to 53 (sqrt x)"


definition f32_add :: "real \<Rightarrow> real \<Rightarrow> real" where
  "f32_add x y = round_to 24 (x + y)"

definition f32_mul :: "real \<Rightarrow> real \<Rightarrow> real" where
  "f32_mul x y = round_to 24 (x * y)"

definition f32_div :: "real \<Rightarrow> real \<Rightarrow> real" where
  "f32_div x y = round_to 24 (x / y)"


subsection \<open>Structures, as ProDy presents them\<close>

type_synonym coord = "real \<times> real \<times> real"
type_synonym matrix = "real list list"

record atom =
  atom_name :: string
  resname :: string
  atom_coords :: coord

record atom_group =
  atoms :: "atom list"

definition numAtoms :: "atom_group \<Rightarrow> nat" where
  "numAtoms s = length (atoms s)"

text \<open>\<open>structure.select('name CA')\<close>: the atoms named CA in file order, or \<open>None\<close>
  when the selection is empty.\<close>

definition select_name_CA :: "atom_group \<Rightarrow> atom list option" where
  "select_name_CA s =
     (let sel = filter (\<lambda>a. atom_name a = ''CA'') (atoms s)
      in if sel = [] then None else Some sel)"

definition getResnames :: "atom list \<Rightarrow> string list" where
  "getResnames sel = map resname sel"

definition getCoords :: "atom list \<Rightarrow> coord list" where
  "getCoords sel = map atom_coords sel"

text \<open>\<open>Bio.PDB.Polypeptide.three_to_one\<close>: a lookup in the table of the twenty
  standard residues that raises \<open>KeyError\<close> for every other name.\<close>

definition d3_to_1 :: "(string \<times> char) list" where
  "d3_to_1 =
    [(''ALA'', CHR ''A''), (''CYS'', CHR ''C''), (''ASP'', CHR ''D''), (''GLU'', CHR ''E''),
     (''PHE'', CHR ''F''), (''GLY'', CHR ''G''), (''HIS'', CHR ''H''), (''ILE'', CHR ''I''),
     (''LYS'', CHR ''K''), (''LEU'', CHR ''L''), (''MET'', CHR ''M''), (''ASN'', CHR ''N''),
     (''PRO'', CHR ''P''), (''GLN'', CHR ''Q''), (''ARG'', CHR ''R''), (''SER'', CHR ''S''),
     (''THR'', CHR ''T''), (''VAL'', CHR ''V''), (''TRP'', CHR ''W''), (''TYR'', CHR ''Y'')]"

definition three_to_one :: "string \<Rightarrow> py_exception + char" where
  "three_to_one s = (case map_of d3_to_1 s of None \<Rightarrow> Inl (KeyError s) | Some c \<Rightarrow> Inr c)"

text \<open>The sequence loop: \<open>seq += one_letter\<close>, or \<open>seq += 'X'\<close> under
  \<open>except KeyError\<close>.\<close>

fun build_seq :: "string \<Rightarrow> string list \<Rightarrow> string" where
  "build_seq seq [] = seq"
| "build_seq seq (r # residues) =
     (case three_to_one r of
        Inr one_letter \<Rightarrow> build_seq (seq @ [one_letter]) residues
      | Inl _ \<Rightarrow> build_seq (seq @ ''X'') residues)"

text \<open>
  \<open>prody.buildDistMatrix(coords, coords)\<close>. With both arguments given the library fills
  row \<open>i\<close> with \<open>getDistance(coords[i], coords)\<close>, which is
  \<open>sqrt(power(diff, 2).sum(axis=-1))\<close> for \<open>diff = coords[i] - coords\<close>: in doubles, the
  three differences, their squares, the sum of the squares taken from left to right, and
  the square root, each rounded.
\<close>

fun getDistance :: "coord \<Rightarrow> coord \<Rightarrow> real" where
  "getDistance (x, y, z) (x', y', z') =
     (let dx = fsub x x'; dy = fsub y y'; dz = fsub z z'
      in fsqrt (fadd (fadd (fmul dx dx) (fmul dy dy)) (fmul dz dz)))"

definition buildDistMatrix :: "coord list \<Rightarrow> coord list \<Rightarrow> matrix" where
  "buildDistMatrix cs ds = map (\<lambda>p. map (\<lambda>q. getDistance p q) ds) cs"

text \<open>\<open>(dist_matrix < 8.0).astype(np.float32)\<close>\<close>

definition threshold_lt :: "real \<Rightarrow> matrix \<Rightarrow> matrix" where
  "threshold_lt t m = map (map (\<lambda>d. if d < t then 1 else 0)) m"

subsection \<open>Cell 11: \<open>extract_sequence_and_contacts\<close>\<close>

text \<open>
  \<open>parsePDB\<close> is the environment: for a path it raises, returns \<open>None\<close> (ProDy's answer
  to a file it cannot read), or returns an atom group (the variable \<open>structure\<close>
  of the source). The whole body sits in
  \<open>try ... except Exception\<close>, so a raise and the \<open>AttributeError\<close> of \<open>None.select\<close>
  both end in \<open>return None, None\<close>. The \<open>np.zeros\<close> matrix the source allocates first is
  overwritten before it is read and is left out, as are the two \<open>print\<close> calls.
\<close>

type_synonym parser = "string \<Rightarrow> py_exception + atom_group option"

definition extract_sequence_and_contacts ::
    "parser \<Rightarrow> string \<Rightarrow> string option \<times> matrix option" where
  "extract_sequence_and_contacts parsePDB pdb_file =
     (case parsePDB pdb_file of
        Inl e \<Rightarrow> (None, None)
      | Inr None \<Rightarrow> (None, None)
      | Inr (Some struc) \<Rightarrow>
          (case select_name_CA struc of
             None \<Rightarrow> (None, None)
           | Some ca_atoms \<Rightarrow>
               if numAtoms struc > 10000 then (None, None)
               else
                 let residues = getResnames ca_atoms;
                     seq = build_seq '''' residues;
                     coords = getCoords ca_atoms;
                     dist_matrix = buildDistMatrix coords coords;
                     contact_map = threshold_lt 8 dist_matrix
                 in (Some seq, Some contact_map)))"

subsection \<open>Cell 12: the loading loop\<close>

text \<open>\<open>os.path.join\<close> for two components, and \<open>pdb_id.split('_')[0]\<close>.\<close>

definition path_join :: "string \<Rightarrow> string \<Rightarrow> string" where
  "path_join a b =
     (if b \<noteq> [] \<and> hd b = CHR ''/'' then b
      else if a = [] \<or> last a = CHR ''/'' then a @ b
      else a @ ''/'' @ b)"

definition entry_id_of :: "string \<Rightarrow> string" where
  "entry_id_of pdb_id = takeWhile (\<lambda>c. c \<noteq> CHR ''_'') pdb_id"

definition pdb_path :: "string \<Rightarrow> string \<Rightarrow> string" where
  "pdb_path download_dir pdb_id = path_join download_dir (entry_id_of pdb_id @ ''.pdb'')"

text \<open>One iteration of the loop appends to both lists or to neither.\<close>

fun load_step :: "parser \<Rightarrow> string \<Rightarrow> string list \<times> matrix list \<Rightarrow> string list \<times> matrix list" where
  "load_step parsePDB pdb_file (sequences, contact_maps) =
     (case extract_sequence_and_contacts parsePDB pdb_file of
        (Some seq, Some cmap) \<Rightarrow> (sequences @ [seq], contact_maps @ [cmap])
      | _ \<Rightarrow> (sequences, contact_maps))"

fun load_loop :: "parser \<Rightarrow> string list \<Rightarrow> string list \<times> matrix list \<Rightarrow> string list \<times> matrix list" where
  "load_loop parsePDB [] loaded = loaded"
| "load_loop parsePDB (pdb_file # rest) loaded =
     load_loop parsePDB rest (load_step parsePDB pdb_file loaded)"

text \<open>The cell: keep the paths that exist (\<open>exists\<close> is \<open>os.path.exists\<close>), then run
  the loop from two empty lists.\<close>

definition load_data :: "(string \<Rightarrow> bool) \<Rightarrow> parser \<Rightarrow> string list \<Rightarrow> string list \<times> matrix list" where
  "load_data exists parsePDB pdb_ids =
     (let pdb_files = map (pdb_path ''pdb_structures'') pdb_ids;
          existing_pdb_files = filter exists pdb_files
      in load_loop parsePDB existing_pdb_files ([], []))"

subsection \<open>Cell 8: \<open>download_pdb_files\<close>\<close>

text \<open>
  The world the function acts on is the file system (path to content) and the console.
  The environment answers the calls that can fail: \<open>os.makedirs\<close>, \<open>requests.get\<close>,
  opening the target file for writing, and writing to it. An \<open>open\<close> that fails creates
  nothing; a \<open>write\<close> that fails leaves behind the file that \<open>open\<close> has created, with
  the part of the text that reached it. A result \<open>(Some e, w)\<close> means that the function
  raised \<open>e\<close> and left the world \<open>w\<close> behind; \<open>(None, w)\<close> that it returned.
\<close>

record response =
  status_code :: nat
  text_of :: string

record world =
  files :: "string \<rightharpoonup> string"
  printed :: "string list"

record env =
  makedirs_error :: "string \<Rightarrow> py_exception option"
  requests_get :: "string \<Rightarrow> py_exception + response"
  open_error :: "string \<Rightarrow> py_exception option"
  write_error :: "string \<Rightarrow> (py_exception \<times> string) option"

fun exn_str :: "py_exception \<Rightarrow> string" where
  "exn_str (RequestException m) = m"
| "exn_str (OSError m) = m"
| "exn_str (KeyError m) = m"
| "exn_str IndexError = []"
| "exn_str (AttributeError m) = m"
| "exn_str (ValueError m) = m"
| "exn_str ZeroDivisionError = ''division by zero''"
| "exn_str (AssertionError m) = m"
| "exn_str (RuntimeError m) = m"
| "exn_str (OtherException m) = m"

definition print_line :: "string \<Rightarrow> world \<Rightarrow> world" where
  "print_line msg w = w\<lparr>printed := printed w @ [msg]\<rparr>"

text \<open>\<open>response.raise_for_status()\<close> raises \<open>HTTPError\<close>, a \<open>RequestException\<close>,
  for the status codes 400 to 599.\<close>

definition raise_for_status :: "response \<Rightarrow> py_exception option" where
  "raise_for_status r =
     (if 400 \<le> status_code r \<and> status_code r < 600
      then Some (RequestException ''HTTPError'') else None)"

definition download_url :: "string \<Rightarrow> string" where
  "download_url entry_id = ''https://files.rcsb.org/download/'' @ entry_id @ ''.pdb''"

text \<open>The body of the \<open>try\<close> block for one id.\<close>

definition try_download :: "env \<Rightarrow> string \<Rightarrow> string \<Rightarrow> string \<Rightarrow> world \<Rightarrow> py_exception option \<times> world" where
  "try_download e download_dir entry_id url w =
     (case requests_get e url of
        Inl ex \<Rightarrow> (Some ex, w)
      | Inr resp \<Rightarrow>
          (case raise_for_status resp of
             Some ex \<Rightarrow> (Some ex, w)
           | None \<Rightarrow>
               let file_path = path_join download_dir (entry_id @ ''.pdb'')
               in (case open_error e file_path of
                     Some ex \<Rightarrow> (Some ex, w)
                   | None \<Rightarrow>
                       (case write_error e file_path of
                          Some (ex, partial) \<Rightarrow>
                            (Some ex, w\<lparr>files := (files w)(file_path \<mapsto> partial)\<rparr>)
                        | None \<Rightarrow>
                            (None, print_line (''Downloaded '' @ entry_id @ ''.pdb'')
                                     (w\<lparr>files := (files w)(file_path \<mapsto> text_of resp)\<rparr>))))))"

text \<open>The \<open>for\<close> loop. \<open>except requests.exceptions.RequestException\<close> handles the
  exceptions of that class only; any other one leaves the function.\<close>

fun download_loop :: "env \<Rightarrow> string \<Rightarrow> string list \<Rightarrow> world \<Rightarrow> py_exception option \<times> world" where
  "download_loop e download_dir [] w = (None, w)"
| "download_loop e download_dir (pdb_id # rest) w =
     (let entry_id = entry_id_of pdb_id;
          file_path = path_join download_dir (entry_id @ ''.pdb'')
      in if file_path \<in> dom (files w) then download_loop e download_dir rest w
         else
           (case try_download e download_dir entry_id (download_url entry_id) w of
              (None, w') \<Rightarrow> download_loop e download_dir rest w'
            | (Some ex, w') \<Rightarrow>
                if is_RequestException ex
                then download_loop e download_dir rest
                       (print_line (''Failed to download '' @ entry_id @ '': '' @ exn_str ex) w')
                else (Some ex, w')))"

definition download_pdb_files :: "env \<Rightarrow> string list \<Rightarrow> string \<Rightarrow> world \<Rightarrow> py_exception option \<times> world" where
  "download_pdb_files e pdb_ids download_dir w =
     (case makedirs_error e download_dir of
        Some ex \<Rightarrow> (Some ex, w)
      | None \<Rightarrow> download_loop e download_dir pdb_ids w)"

subsection \<open>Cell 15: splitting\<close>

text \<open>
  \<open>int(0.7 * num_sequences)\<close> is computed in IEEE double precision: the integer is
  converted to a double, multiplied by the double nearest to 0.7, the product is rounded
  to 53 significant bits (to nearest, ties to even), and \<open>int\<close> truncates. The double
  0.7 is \<open>6305039478318694 / 2^53\<close> and the double 0.85 is \<open>7656119366529843 / 2^53\<close>.
\<close>

text \<open>Rounding a natural number to 53 significant bits.\<close>

definition round53 :: "nat \<Rightarrow> nat" where
  "round53 N =
     (if bit_length N \<le> 53 then N
      else
        let s = bit_length N - 53;
            q = N div 2 ^ s;
            r = N mod 2 ^ s;
            half = 2 ^ (s - 1)
        in (if r > half \<or> (r = half \<and> odd q) then q + 1 else q) * 2 ^ s)"

text \<open>\<open>int(c * n)\<close> for a double \<open>c = m / 2^53\<close>.\<close>

definition int_float_mul :: "nat \<Rightarrow> nat \<Rightarrow> nat" where
  "int_float_mul m n = round53 (m * round53 n) div 2 ^ 53"

definition double_0_7 :: nat where
  "double_0_7 = 6305039478318694"

definition double_0_85 :: nat where
  "double_0_85 = 7656119366529843"

definition train_end_of :: "nat \<Rightarrow> nat" where
  "train_end_of num_sequences = int_float_mul double_0_7 num_sequences"

definition val_end_of :: "nat \<Rightarrow> nat" where
  "val_end_of num_sequences = int_float_mul double_0_85 num_sequences"

text \<open>Python slices with non-negative bounds, and the comprehension
  \<open>[xs[i] for i in idxs]\<close>, which raises \<open>IndexError\<close> at an index out of range.\<close>

definition slice_to :: "nat \<Rightarrow> 'a list \<Rightarrow> 'a list" where
  "slice_to b xs = take b xs"

definition slice_between :: "nat \<Rightarrow> nat \<Rightarrow> 'a list \<Rightarrow> 'a list" where
  "slice_between a b xs = drop a (take b xs)"

definition slice_from :: "nat \<Rightarrow> 'a list \<Rightarrow> 'a list" where
  "slice_from a xs = drop a xs"

fun select_by :: "'a list \<Rightarrow> nat list \<Rightarrow> py_exception + 'a list" where
  "select_by xs [] = Inr []"
| "select_by xs (i # idxs) =
     (if i < length xs
      then (case select_by xs idxs of Inl ex \<Rightarrow> Inl ex | Inr ys \<Rightarrow> Inr (xs ! i # ys))
      else Inl IndexError)"

record split =
  train_indices :: "nat list"
  val_indices :: "nat list"
  test_indices :: "nat list"
  train_sequences :: "string list"
  val_sequences :: "string list"
  test_sequences :: "string list"
  train_contact_maps :: "matrix list"
  val_contact_maps :: "matrix list"
  test_contact_maps :: "matrix list"

text \<open>\<open>shuffle\<close> stands for \<open>np.random.shuffle\<close> under the seed set in the cell: some
  rearrangement of the list it is given.\<close>

definition split_data :: "(nat list \<Rightarrow> nat list) \<Rightarrow> string list \<Rightarrow> matrix list \<Rightarrow> py_exception + split" where
  "split_data shuffle sequences contact_maps =
     (let num_sequences = length sequences;
          indices = shuffle [0..<num_sequences];
          train_end = train_end_of num_sequences;
          val_end = val_end_of num_sequences;
          tr = slice_to train_end indices;
          va = slice_between train_end val_end indices;
          te = slice_from val_end indices
      in case (select_by sequences tr, select_by sequences va, select_by sequences te,
               select_by contact_maps tr, select_by contact_maps va, select_by contact_maps te) of
           (Inr trs, Inr vas, Inr tes, Inr trc, Inr vac, Inr tec) \<Rightarrow>
             Inr \<lparr>train_indices = tr, val_indices = va, test_indices = te,
                  train_sequences = trs, val_sequences = vas, test_sequences = tes,
                  train_contact_maps = trc, val_contact_maps = vac, test_contact_maps = tec\<rparr>
         | _ \<Rightarrow> Inl IndexError)"

subsection \<open>Cell 17: \<open>ProteinDataset\<close>\<close>

record protein_dataset =
  ds_sequences :: "string list"
  ds_contact_maps :: "matrix list"
  ds_esm_embeddings :: "matrix list"

definition getitem :: "protein_dataset \<Rightarrow> nat \<Rightarrow> py_exception + matrix \<times> matrix" where
  "getitem self idx =
     (if idx \<ge> length (ds_esm_embeddings self) then Inl IndexError
      else if idx \<ge> length (ds_contact_maps self) then Inl IndexError
      else
        let embedding = ds_esm_embeddings self ! idx;
            contact_map = ds_contact_maps self ! idx;
            L_emb = length embedding;
            L_contact = length contact_map
        in if L_emb = L_contact then Inr (embedding, contact_map)
           else Inl (AssertionError ''Dimension mismatch''))"

subsection \<open>Cell 25: \<open>find_similar_structures\<close>\<close>

text \<open>
  \<open>matches / min_len\<close> divides two integers: it raises \<open>ZeroDivisionError\<close> when
  either sequence is empty, and is otherwise the double nearest to the exact quotient. The
  threshold is a double; the default \<open>0.3\<close> is \<open>5404319552844595 / 2^54\<close>.
\<close>

definition similarity :: "string \<Rightarrow> string \<Rightarrow> py_exception + real" where
  "similarity sequence seq =
     (let min_len = min (length sequence) (length seq);
          matches = length (filter (\<lambda>(a, b). a = b) (zip (take min_len sequence) (take min_len seq)))
      in if min_len = 0 then Inl ZeroDivisionError
         else Inr (round_to 53 (real matches / real min_len)))"

definition default_threshold :: real where
  "default_threshold = 5404319552844595 / 18014398509481984"

text \<open>\<open>cmap[:seq_len, :seq_len]\<close>: a slice never enlarges an array.\<close>

definition resize :: "nat \<Rightarrow> matrix \<Rightarrow> matrix" where
  "resize seq_len cmap = map (take seq_len) (take seq_len cmap)"

fun collect_similar :: "string \<Rightarrow> real \<Rightarrow> (string \<times> matrix) list \<Rightarrow> matrix list \<Rightarrow> py_exception + matrix list" where
  "collect_similar sequence threshold [] similar_structs = Inr similar_structs"
| "collect_similar sequence threshold ((seq, cmap) # rest) similar_structs =
     (case similarity sequence seq of
        Inl ex \<Rightarrow> Inl ex
      | Inr sim \<Rightarrow>
          if sim > threshold
          then collect_similar sequence threshold rest
                 (similar_structs @ [resize (length sequence) cmap])
          else collect_similar sequence threshold rest similar_structs)"

text \<open>
  \<open>np.mean(ms, axis=0)\<close> for a non-empty list of two-dimensional float32 arrays. Arrays
  of one shape are stacked; the entries at one position are added in float32 and the sum is
  divided by the number of arrays, the quotient rounded to float32. Two things depend on
  the installed library and are parameters of the model:
  \<^item> the order in which more than one value is added (one array after the other for
    arrays of several entries, in blocks for arrays of a single entry);
  \<^item> what happens to arrays of different shapes (\<open>ValueError\<close> since NumPy 1.24; before,
    an array of objects whose elements are added with broadcasting).

  The count is converted exactly: dividing by its float32 value, or dividing in double
  precision and rounding the double to float32, gives the float32 nearest to the exact
  quotient for every list of fewer than \<open>2^24\<close> arrays.
\<close>

record numpy =
  add_reduce :: "real list \<Rightarrow> real"
  mean_ragged :: "matrix list \<Rightarrow> py_exception + matrix"

definition same_shape :: "matrix \<Rightarrow> matrix \<Rightarrow> bool" where
  "same_shape a b = (map length a = map length b)"

text \<open>The float32 sum of the entries at one position: a single array is its own sum.\<close>

definition float32_sum :: "numpy \<Rightarrow> real list \<Rightarrow> real" where
  "float32_sum np vs = (case vs of [v] \<Rightarrow> v | _ \<Rightarrow> add_reduce np vs)"

definition np_mean_axis0 :: "numpy \<Rightarrow> matrix list \<Rightarrow> py_exception + matrix" where
  "np_mean_axis0 np ms =
     (if list_all (same_shape (hd ms)) ms
      then Inr (map (\<lambda>i. map (\<lambda>j. f32_div (float32_sum np (map (\<lambda>m. m ! i ! j) ms))
                                        (real (length ms)))
                              [0..<length (hd ms ! i)])
                    [0..<length (hd ms)])
      else mean_ragged np ms)"

definition np_zeros :: "nat \<Rightarrow> nat \<Rightarrow> matrix" where
  "np_zeros r c = replicate r (replicate c 0)"

definition find_similar_structures ::
    "numpy \<Rightarrow> string \<Rightarrow> string list \<Rightarrow> matrix list \<Rightarrow> real \<Rightarrow> py_exception + matrix" where
  "find_similar_structures np sequence sequences contact_maps threshold =
     (let seq_len = length sequence
      in case collect_similar sequence threshold (zip sequences contact_maps) [] of
           Inl ex \<Rightarrow> Inl ex
         | Inr similar_structs \<Rightarrow>
             if similar_structs \<noteq> []
             then (case np_mean_axis0 np similar_structs of
                     Inl ex \<Rightarrow> Inl ex
                   | Inr aggregated_struct \<Rightarrow>
                       if length aggregated_struct \<noteq> seq_len
                       then Inr (resize seq_len aggregated_struct)
                       else Inr aggregated_struct)
             else Inr (np_zeros seq_len seq_len))"

subsection \<open>Cell 20: \<open>ContactPredictionModel\<close>\<close>

text \<open>
  A tensor is its shape together with its entries, read by index list. The operations
  are those of the tensor library, each defined by what it does to the shape and to the
  index: they are total where the library is, and return an error where it raises.

  The float32 arithmetic inside the layers belongs to the library's kernels, which differ
  from one device and build to the next: the value a convolution computes from the bias
  and the list of pairs of a weight and an input entry (the products and their sum, in
  the kernel's order and rounding), and the value of the sigmoid. Both are parameters.
\<close>

record kernels =
  multiply_accumulate :: "real \<Rightarrow> (real \<times> real) list \<Rightarrow> real"
  logistic :: "real \<Rightarrow> real"

record tensor =
  shape :: "nat list"
  elem :: "nat list \<Rightarrow> real"

definition unsqueeze :: "nat \<Rightarrow> tensor \<Rightarrow> tensor" where
  "unsqueeze d t =
     \<lparr>shape = take d (shape t) @ [1] @ drop d (shape t),
      elem = (\<lambda>ix. elem t (take d ix @ drop (Suc d) ix))\<rparr>"

definition repeat :: "nat list \<Rightarrow> tensor \<Rightarrow> tensor" where
  "repeat reps t =
     \<lparr>shape = map2 (\<lambda>r n. r * n) reps (shape t),
      elem = (\<lambda>ix. elem t (map2 (\<lambda>i n. i mod n) ix (shape t)))\<rparr>"

text \<open>\<open>torch.cat([a, b], dim=-1)\<close> needs equal sizes in every other dimension.\<close>

definition cat_last :: "tensor \<Rightarrow> tensor \<Rightarrow> py_exception + tensor" where
  "cat_last a b =
     (if shape a = [] \<or> shape b = [] \<or> butlast (shape a) \<noteq> butlast (shape b)
      then Inl (RuntimeError ''Sizes of tensors must match'')
      else Inr \<lparr>shape = butlast (shape a) @ [last (shape a) + last (shape b)],
                elem = (\<lambda>ix. if last ix < last (shape a) then elem a ix
                           else elem b (butlast ix @ [last ix - last (shape a)]))\<rparr>)"

fun pos_of :: "nat \<Rightarrow> nat list \<Rightarrow> nat" where
  "pos_of k [] = 0"
| "pos_of k (p # ps) = (if p = k then 0 else Suc (pos_of k ps))"

text \<open>\<open>t.permute(perm)\<close>: dimension \<open>k\<close> of the result is dimension \<open>perm ! k\<close> of
  \<open>t\<close>.\<close>

definition permute :: "nat list \<Rightarrow> tensor \<Rightarrow> tensor" where
  "permute perm t =
     \<lparr>shape = map (\<lambda>p. shape t ! p) perm,
      elem = (\<lambda>ix. elem t (map (\<lambda>k. ix ! pos_of k perm) [0..<length perm]))\<rparr>"

definition relu :: "tensor \<Rightarrow> tensor" where
  "relu t = t\<lparr>elem := (\<lambda>ix. max 0 (elem t ix))\<rparr>"

definition sigmoid :: "kernels \<Rightarrow> tensor \<Rightarrow> tensor" where
  "sigmoid ks t = t\<lparr>elem := (\<lambda>ix. logistic ks (elem t ix))\<rparr>"

text \<open>\<open>t.squeeze(d)\<close> removes dimension \<open>d\<close> when its size is 1 and returns \<open>t\<close>
  otherwise.\<close>

definition squeeze :: "nat \<Rightarrow> tensor \<Rightarrow> tensor" where
  "squeeze d t =
     (if d < length (shape t) \<and> shape t ! d = 1
      then \<lparr>shape = take d (shape t) @ drop (Suc d) (shape t),
            elem = (\<lambda>ix. elem t (take d ix @ [0] @ drop d ix))\<rparr>
      else t)"

text \<open>
  \<open>nn.Conv2d\<close> with stride 1: the cross-correlation of the zero-padded input with the
  kernel, plus the bias, as the library's kernel computes it. The library rejects an input that is not four-dimensional,
  whose channel count differs from \<open>in_channels\<close>, or whose padded height or width is
  smaller than the kernel.
\<close>

record conv2d =
  in_channels :: nat
  out_channels :: nat
  kernel_size :: nat
  padding :: nat
  weight :: "nat \<Rightarrow> nat \<Rightarrow> nat \<Rightarrow> nat \<Rightarrow> real"
  bias :: "nat \<Rightarrow> real"

definition padded :: "nat \<Rightarrow> nat \<Rightarrow> nat \<Rightarrow> tensor \<Rightarrow> nat \<Rightarrow> nat \<Rightarrow> nat \<Rightarrow> nat \<Rightarrow> real" where
  "padded p H W x b c u v =
     (if p \<le> u \<and> u < H + p \<and> p \<le> v \<and> v < W + p then elem x [b, c, u - p, v - p] else 0)"

text \<open>The pairs of a weight and an input entry that the kernel window at one output
  position covers are listed by input channel, kernel row and kernel column.\<close>

definition conv2d_apply :: "kernels \<Rightarrow> conv2d \<Rightarrow> tensor \<Rightarrow> py_exception + tensor" where
  "conv2d_apply ks cv x =
     (case shape x of
        [B, C, H, W] \<Rightarrow>
          if C \<noteq> in_channels cv then Inl (RuntimeError ''channel mismatch'')
          else if H + 2 * padding cv < kernel_size cv \<or> W + 2 * padding cv < kernel_size cv
          then Inl (RuntimeError ''Kernel size can't be greater than actual input size'')
          else Inr \<lparr>shape = [B, out_channels cv,
                              H + 2 * padding cv - kernel_size cv + 1,
                              W + 2 * padding cv - kernel_size cv + 1],
                     elem = (\<lambda>ix. multiply_accumulate ks (bias cv (ix ! 1))
                            (concat (map (\<lambda>c. concat (map (\<lambda>ky. map (\<lambda>kx.
                               (weight cv (ix ! 1) c ky kx,
                                padded (padding cv) H W x (ix ! 0) c (ix ! 2 + ky) (ix ! 3 + kx)))
                               [0..<kernel_size cv]) [0..<kernel_size cv])) [0..<C])))\<rparr>
      | _ \<Rightarrow> Inl (RuntimeError ''Expected 4D input''))"

record contact_prediction_model =
  embedding_dim :: nat
  conv1 :: conv2d
  conv2 :: conv2d

text \<open>\<open>__init__\<close> fixes everything but the trainable weights and biases.\<close>

definition ContactPredictionModel ::
    "nat \<Rightarrow> (nat \<Rightarrow> nat \<Rightarrow> nat \<Rightarrow> nat \<Rightarrow> real) \<Rightarrow> (nat \<Rightarrow> real) \<Rightarrow>
     (nat \<Rightarrow> nat \<Rightarrow> nat \<Rightarrow> nat \<Rightarrow> real) \<Rightarrow> (nat \<Rightarrow> real) \<Rightarrow> contact_prediction_model" where
  "ContactPredictionModel edim w1 b1 w2 b2 =
     \<lparr>embedding_dim = edim,
      conv1 = \<lparr>in_channels = edim * 2, out_channels = 64, kernel_size = 3, padding = 1,
               weight = w1, bias = b1\<rparr>,
      conv2 = \<lparr>in_channels = 64, out_channels = 1, kernel_size = 3, padding = 1,
               weight = w2, bias = b2\<rparr>\<rparr>"

definition bind_exn :: "py_exception + 'a \<Rightarrow> ('a \<Rightarrow> py_exception + 'b) \<Rightarrow> py_exception + 'b" where
  "bind_exn r f = (case r of Inl ex \<Rightarrow> Inl ex | Inr v \<Rightarrow> f v)"

text \<open>\<open>forward\<close>, in two parts: the lines up to \<open>torch.cat\<close>, which build the
  pairwise tensor of shape \<open>(batch_size, L, L, 2D)\<close>, and the rest of the function.\<close>

definition pairwise_concat :: "tensor \<Rightarrow> py_exception + tensor" where
  "pairwise_concat embedding =
     (case shape embedding of
        [batch_size, L, D] \<Rightarrow>
          let emb_i = unsqueeze 2 embedding;
              emb_j = unsqueeze 1 embedding;
              emb_i = repeat [1, 1, L, 1] emb_i;
              emb_j = repeat [1, L, 1, 1] emb_j
          in cat_last emb_i emb_j
      | _ \<Rightarrow> Inl (ValueError ''not enough values to unpack''))"

definition forward :: "kernels \<Rightarrow> contact_prediction_model \<Rightarrow> tensor \<Rightarrow> py_exception + tensor" where
  "forward ks self embedding =
     bind_exn (pairwise_concat embedding) (\<lambda>pairwise_emb.
       let x = permute [0, 3, 1, 2] pairwise_emb
       in bind_exn (conv2d_apply ks (conv1 self) x) (\<lambda>x.
          let x = relu x
          in bind_exn (conv2d_apply ks (conv2 self) x) (\<lambda>x.
             let x = sigmoid ks x;
                 x = squeeze 1 x
             in Inr x)))"

text \<open>The head as the specification words it: the channel vector at \<open>(i, j)\<close> is row
  \<open>i\<close> followed by row \<open>j\<close>; two 3-by-3 convolutions with padding 1, a ReLU between
  them and a sigmoid after.\<close>

definition pair_feature :: "tensor \<Rightarrow> nat \<Rightarrow> nat \<Rightarrow> nat \<Rightarrow> nat \<Rightarrow> nat \<Rightarrow> real" where
  "pair_feature embedding D b c i j =
     (if c < D then elem embedding [b, i, c] else elem embedding [b, j, c - D])"

definition conv3x3 ::
    "kernels \<Rightarrow> (nat \<Rightarrow> nat \<Rightarrow> nat \<Rightarrow> nat \<Rightarrow> real) \<Rightarrow> (nat \<Rightarrow> real) \<Rightarrow> nat \<Rightarrow> nat \<Rightarrow>
     (nat \<Rightarrow> nat \<Rightarrow> nat \<Rightarrow> real) \<Rightarrow> nat \<Rightarrow> nat \<Rightarrow> nat \<Rightarrow> real" where
  "conv3x3 ks w bs C L inp oc y x =
     multiply_accumulate ks (bs oc)
       (concat (map (\<lambda>c. concat (map (\<lambda>ky. map (\<lambda>kx.
          (w oc c ky kx,
           if 1 \<le> y + ky \<and> y + ky \<le> L \<and> 1 \<le> x + kx \<and> x + kx \<le> L
           then inp c (y + ky - 1) (x + kx - 1) else 0))
          [0..<3]) [0..<3])) [0..<C]))"

definition head_spec ::
    "kernels \<Rightarrow> contact_prediction_model \<Rightarrow> tensor \<Rightarrow> nat \<Rightarrow> nat \<Rightarrow> nat \<Rightarrow> nat \<Rightarrow> nat \<Rightarrow> real" where
  "head_spec ks self embedding L D b i j =
     logistic ks
       (conv3x3 ks (weight (conv2 self)) (bias (conv2 self)) 64 L
          (\<lambda>c y x. max 0
             (conv3x3 ks (weight (conv1 self)) (bias (conv1 self)) (2 * D) L
                (pair_feature embedding D b) c y x))
          0 i j)"

subsection \<open>The specification's wording\<close>

text \<open>The similarity as the specification words it: the fraction of the positions of
  the common prefix at which the two sequences carry the same character.\<close>

definition match_fraction :: "string \<Rightarrow> string \<Rightarrow> real" where
  "match_fraction sequence seq =
     (let m = min (length sequence) (length seq)
      in real (length (filter (\<lambda>i. sequence ! i = seq ! i) [0..<m])) / real m)"

text \<open>The maps to aggregate, in the specification's words: the contact maps of exactly
  those database sequences whose similarity, held as a double, is strictly greater than
  the threshold, each truncated to the first \<open>len(sequence)\<close> rows and columns.\<close>

definition similar_maps :: "string \<Rightarrow> string list \<Rightarrow> matrix list \<Rightarrow> real \<Rightarrow> matrix list" where
  "similar_maps sequence sequences contact_maps threshold =
     map (\<lambda>(seq, cmap). map (take (length sequence)) (take (length sequence) cmap))
       (filter (\<lambda>(seq, cmap). round_to 53 (match_fraction sequence seq) > threshold)
          (zip sequences contact_maps))"

text \<open>The exception, if any, that the request for one URL ends in: the one raised by
  \<open>requests.get\<close>, or the one raised by \<open>raise_for_status\<close>.\<close>

definition request_failure :: "env \<Rightarrow> string \<Rightarrow> py_exception option" where
  "request_failure e url =
     (case requests_get e url of Inl ex \<Rightarrow> Some ex | Inr resp \<Rightarrow> raise_for_status resp)"

subsection \<open>Sample inputs\<close>

text \<open>A structure with three CA atoms, one of them in a non-standard residue, and a
  parser that knows five files.\<close>

definition demo_atoms :: "atom list" where
  "demo_atoms =
     [\<lparr>atom_name = ''N'', resname = ''ALA'', atom_coords = (1, 0, 0)\<rparr>,
      \<lparr>atom_name = ''CA'', resname = ''ALA'', atom_coords = (0, 0, 0)\<rparr>,
      \<lparr>atom_name = ''CA'', resname = ''MSE'', atom_coords = (3, 4, 0)\<rparr>,
      \<lparr>atom_name = ''CA'', resname = ''GLY'', atom_coords = (0, 0, 9)\<rparr>]"

definition demo_parser :: parser where
  "demo_parser p =
     (if p = ''pdb_structures/1abc.pdb'' then Inr (Some \<lparr>atoms = demo_atoms\<rparr>)
      else if p = ''pdb_structures/2big.pdb''
      then Inr (Some \<lparr>atoms = replicate 10001
                  \<lparr>atom_name = ''CA'', resname = ''GLY'', atom_coords = (0, 0, 0)\<rparr>\<rparr>)
      else if p = ''pdb_structures/3wat.pdb''
      then Inr (Some \<lparr>atoms = [\<lparr>atom_name = ''O'', resname = ''HOH'', atom_coords = (0, 0, 0)\<rparr>]\<rparr>)
      else if p = ''pdb_structures/4nil.pdb'' then Inr None
      else Inl (OSError ''No such file''))"



text \<open>A network that serves one entry, answers 404 for a second and is unreachable for
  every other one; and the same network over a full disk, where the file can be created
  but nothing can be written to it.\<close>

definition demo_env :: env where
  "demo_env =
     \<lparr>makedirs_error = (\<lambda>d. None),
      requests_get = (\<lambda>u.
        if u = ''https://files.rcsb.org/download/1abc.pdb''
        then Inr \<lparr>status_code = 200, text_of = ''ATOM''\<rparr>
        else if u = ''https://files.rcsb.org/download/2bad.pdb''
        then Inr \<lparr>status_code = 404, text_of = ''Not Found''\<rparr>
        else Inl (RequestException ''ConnectionError'')),
      open_error = (\<lambda>p. None),
      write_error = (\<lambda>p. None)\<rparr>"

definition demo_env_disk_full :: env where
  "demo_env_disk_full =
     demo_env\<lparr>write_error := (\<lambda>p. Some (OSError ''No space left on device'', []))\<rparr>"

text \<open>A library that adds one array after the other and rejects arrays of different
  shapes.\<close>

definition demo_numpy :: numpy where
  "demo_numpy =
     \<lparr>add_reduce = foldl f32_add 0,
      mean_ragged = (\<lambda>ms. Inl (ValueError ''inhomogeneous shape''))\<rparr>"

definition empty_world :: world where
  "empty_world = \<lparr>files = Map.empty, printed = []\<rparr>"

text \<open>Kernels that round every product and every partial sum to float32, in the order
  of the window; a model of embedding dimension 2 with constant weights, an embedding of
  one sequence of length 2, and the embedding of an empty sequence.\<close>

definition demo_kernels :: kernels where
  "demo_kernels =
     \<lparr>multiply_accumulate = (\<lambda>b ps. foldl (\<lambda>acc (w, v). f32_add acc (f32_mul w v)) b ps),
      logistic = (\<lambda>v. round_to 24 (1 / (1 + exp (- v))))\<rparr>"

definition demo_model :: contact_prediction_model where
  "demo_model = ContactPredictionModel 2 (\<lambda>oc c ky kx. 1) (\<lambda>oc. 0) (\<lambda>oc c ky kx. 1) (\<lambda>oc. 0)"

definition demo_embedding :: tensor where
  "demo_embedding = \<lparr>shape = [1, 2, 2], elem = (\<lambda>ix. real (2 * (ix ! 1) + ix ! 2 + 1))\<rparr>"

definition empty_embedding :: tensor where
  "empty_embedding = \<lparr>shape = [1, 0, 2], elem = (\<lambda>ix. 0)\<rparr>"

section \<open>Verified properties\<close>

subsection \<open>Rounding\<close>

text \<open>Facts about \<open>round_to\<close>: the result is within half a unit in the last place of
  its argument, whole numbers below \<open>2^p\<close> are kept, rounding is monotone across powers
  of two, and the rounded distance is below 8 exactly when the rounded sum of squares is
  below \<open>(8 - 2^-51)^2\<close>.\<close>

lemma bit_length_bounds:
  "0 < n \<Longrightarrow> 2 ^ (bit_length n - 1) \<le> n \<and> n < 2 ^ bit_length n"
proof (induction n rule: bit_length.induct)
  case (1 n)
  show ?case
  proof (cases "n div 2 = 0")
    case True
    with "1.prems" have "n = 1" by (simp add: div_eq_0_iff) 
    then show ?thesis by (simp add: bit_length.simps [of "Suc 0"] bit_length.simps [of 0])
  next
    case False
    then have pos: "0 < n div 2" by simp
    from "1.prems" have n0: "n \<noteq> 0" by simp
    from "1.IH" [OF n0 pos]
    have ih: "2 ^ (bit_length (n div 2) - 1) \<le> n div 2" "n div 2 < 2 ^ bit_length (n div 2)"
      by simp_all
    have bl: "bit_length n = Suc (bit_length (n div 2))"
      using n0 by (simp add: bit_length.simps [of n])
    have blpos: "0 < bit_length (n div 2)"
      using pos by (simp add: bit_length.simps [of "n div 2"])
    then obtain k where k: "bit_length (n div 2) = Suc k" by (cases "bit_length (n div 2)") auto
    from ih k have "2 ^ k \<le> n div 2" "n div 2 < 2 ^ Suc k" by simp_all
    then have "2 * 2 ^ k \<le> n" "n < 2 * (2 * 2 ^ k)"
      by (simp_all add: less_eq_div_iff_mult_less_eq div_less_iff_less_mult mult.commute)
    then have "2 ^ Suc k \<le> n" "n < 2 ^ Suc (Suc k)" by simp_all
    then show ?thesis by (simp add: bl k)
  qed
qed

lemma real_le_pow2: "n \<le> 2 ^ k \<Longrightarrow> real n \<le> 2 ^ k"
proof -
  assume "n \<le> 2 ^ k"
  then have "real n \<le> real (2 ^ k)" by (rule of_nat_mono)
  then show ?thesis by simp
qed

lemma real_ge_pow2: "2 ^ k \<le> n \<Longrightarrow> (2::real) ^ k \<le> real n"
proof -
  assume "2 ^ k \<le> n"
  then have "real (2 ^ k) \<le> real n" by (rule of_nat_mono)
  then show ?thesis by simp
qed

lemma expo_bounds:
  assumes "x \<noteq> 0"
  shows "2 powi expo x \<le> \<bar>x\<bar>" and "\<bar>x\<bar> < 2 powi (expo x + 1)"
proof -
  show "2 powi expo x \<le> \<bar>x\<bar>"
  proof (cases "1 \<le> \<bar>x\<bar>")
    case True
    define n where "n = nat \<lfloor>\<bar>x\<bar>\<rfloor>"
    from True have n1: "0 < n" by (simp add: n_def)
    have nx: "real n \<le> \<bar>x\<bar>" by (simp add: n_def)
    from bit_length_bounds [OF n1] have "2 ^ (bit_length n - 1) \<le> n" by simp
    then have a: "(2::real) ^ (bit_length n - 1) \<le> real n"
      by (rule real_ge_pow2)
    have "0 < bit_length n" using n1 by (simp add: bit_length.simps [of n])
    then have "expo x = int (bit_length n - 1)"
      using True by (simp add: expo_def n_def)
    then have "2 powi expo x = (2::real) ^ (bit_length n - 1)"
      by (simp only: power_int_of_nat)
    with order_trans [OF a nx] show ?thesis by simp
  next
    case False
    define y where "y = 1 / \<bar>x\<bar>"
    from False assms have y1: "1 < y" by (simp add: y_def)
    define m where "m = nat (\<lceil>y\<rceil> - 1)"
    have "y \<le> of_int \<lceil>y\<rceil>" by simp
    moreover have "\<lceil>y\<rceil> \<ge> 2" using y1 by linarith
    ultimately have ym: "y \<le> real m + 1" by (simp add: m_def)
    have "real m < y" unfolding m_def using y1 by linarith
    have "m < 2 ^ bit_length m"
    proof (cases "m = 0")
      case True then show ?thesis by simp
    next
      case False then show ?thesis using bit_length_bounds [of m] by simp
    qed
    then have "m + 1 \<le> 2 ^ bit_length m" by simp
    then have "real (m + 1) \<le> 2 ^ bit_length m"
      by (rule real_le_pow2)
    then have "real m + 1 \<le> 2 ^ bit_length m" by simp
    with ym have "y \<le> 2 ^ bit_length m" by simp
    then have b: "1 / 2 ^ bit_length m \<le> \<bar>x\<bar>"
      using assms by (simp add: y_def field_simps)
    have "expo x = - int (bit_length m)"
      using False by (simp add: expo_def m_def y_def)
    then have "2 powi expo x = 1 / (2::real) ^ bit_length m"
      by (simp only: power_int_minus_divide power_int_of_nat)
    with b show ?thesis by simp
  qed
  show "\<bar>x\<bar> < 2 powi (expo x + 1)"
  proof (cases "1 \<le> \<bar>x\<bar>")
    case True
    define n where "n = nat \<lfloor>\<bar>x\<bar>\<rfloor>"
    from True have n1: "0 < n" by (simp add: n_def)
    have nx: "\<bar>x\<bar> < real n + 1" unfolding n_def by linarith
    from bit_length_bounds [OF n1] have "n + 1 \<le> 2 ^ bit_length n" by simp
    then have "real (n + 1) \<le> 2 ^ bit_length n"
      by (rule real_le_pow2)
    then have a: "real n + 1 \<le> 2 ^ bit_length n" by simp
    have "0 < bit_length n" using n1 by (simp add: bit_length.simps [of n])
    then have "expo x + 1 = int (bit_length n)"
      using True by (simp add: expo_def n_def)
    then have "2 powi (expo x + 1) = (2::real) ^ bit_length n"
      by (simp only: power_int_of_nat)
    with nx a show ?thesis by simp
  next
    case False
    define y where "y = 1 / \<bar>x\<bar>"
    from False assms have y1: "1 < y" by (simp add: y_def)
    define m where "m = nat (\<lceil>y\<rceil> - 1)"
    have my: "real m < y" unfolding m_def using y1 by linarith
    have m1: "0 < m" unfolding m_def using y1 by linarith
    have e: "expo x = - int (bit_length m)"
      using False by (simp add: expo_def m_def y_def)
    have bpos: "0 < bit_length m" using m1 by (simp add: bit_length.simps [of m])
    from bit_length_bounds [OF m1] have "2 ^ (bit_length m - 1) \<le> m" by simp
    then have "(2::real) ^ (bit_length m - 1) \<le> real m"
      by (rule real_ge_pow2)
    then have "(2::real) ^ (bit_length m - 1) < y" using my by (rule le_less_trans)
    then have b: "\<bar>x\<bar> < 1 / 2 ^ (bit_length m - 1)"
      using assms by (simp add: y_def field_simps)
    have "expo x + 1 = - int (bit_length m - 1)"
      using e bpos by simp
    then have "2 powi (expo x + 1) = 1 / (2::real) ^ (bit_length m - 1)"
      by (simp only: power_int_minus_divide power_int_of_nat)
    with b show ?thesis by simp
  qed
qed

lemma round_half_even_range:
  "\<lfloor>y\<rfloor> \<le> round_half_even y" "round_half_even y \<le> \<lfloor>y\<rfloor> + 1"
  by (simp_all add: round_half_even_def Let_def)

lemma round_half_even_int: "round_half_even (of_int k) = k"
  by (simp add: round_half_even_def)


lemma round_half_even_ge: "of_int k \<le> z \<Longrightarrow> k \<le> round_half_even z"
  using round_half_even_range(1) [of z] le_floor_iff [of k z] by linarith

lemma round_half_even_le: "z \<le> of_int k \<Longrightarrow> round_half_even z \<le> k"
proof -
  assume z: "z \<le> of_int k"
  show ?thesis
  proof (cases "z = of_int k")
    case True
    then show ?thesis by (simp add: round_half_even_int)
  next
    case False
    with z have "z < of_int k" by simp
    then have "\<lfloor>z\<rfloor> < k" by (simp add: floor_less_iff)
    with round_half_even_range(2) [of z] show ?thesis by linarith
  qed
qed


lemma round_half_even_less_even:
  assumes "even N"
  shows "round_half_even z < N \<longleftrightarrow> z < of_int N - 1 / 2"
proof
  assume lt: "round_half_even z < N"
  show "z < of_int N - 1 / 2"
  proof (rule ccontr)
    assume "\<not> z < of_int N - 1 / 2"
    then have ge: "of_int N - 1 / 2 \<le> z" by simp
    then have "of_int (N - 1) \<le> z" by simp
    then have f: "N - 1 \<le> \<lfloor>z\<rfloor>" by (simp add: le_floor_iff)
    show False
    proof (cases "\<lfloor>z\<rfloor> = N - 1")
      case True
      then have odd: "odd \<lfloor>z\<rfloor>" using assms by simp
      from True ge have "1 / 2 \<le> z - of_int \<lfloor>z\<rfloor>" by simp
      then have "round_half_even z = \<lfloor>z\<rfloor> + 1"
        using odd by (auto simp: round_half_even_def Let_def)
      with True lt show False by simp
    next
      case False
      with f have "N \<le> \<lfloor>z\<rfloor>" by simp
      with round_half_even_range(1) [of z] lt show False by simp
    qed
  qed
next
  assume z: "z < of_int N - 1 / 2"
  then have "z < of_int N" by simp
  then have f: "\<lfloor>z\<rfloor> \<le> N - 1" by (simp add: floor_less_iff)
  show "round_half_even z < N"
  proof (cases "\<lfloor>z\<rfloor> = N - 1")
    case True
    with z have "z - of_int \<lfloor>z\<rfloor> < 1 / 2" by simp
    then have "round_half_even z = \<lfloor>z\<rfloor>" by (simp add: round_half_even_def Let_def)
    with True show ?thesis by simp
  next
    case False
    with f have "\<lfloor>z\<rfloor> + 1 \<le> N - 1" by simp
    with round_half_even_range(2) [of z] show ?thesis by simp
  qed
qed

lemma round_to_zero: "round_to p 0 = 0"
  by (simp add: round_to_def)



lemma round_to_scaled:
  assumes "x \<noteq> 0"
  shows "round_to p x =
     of_int (round_half_even (x / 2 powi (expo x - int p + 1))) * 2 powi (expo x - int p + 1)"
  using assms by (simp add: round_to_def Let_def)


lemma expo_unique:
  assumes "2 powi k \<le> \<bar>x\<bar>" "\<bar>x\<bar> < 2 powi (k + 1)"
  shows "expo x = k"
proof -
  have "(0::real) < 2 powi k" by simp
  with assms(1) have "0 < \<bar>x\<bar>" by linarith
  then have x0: "x \<noteq> 0" by simp
  note b = expo_bounds [OF x0]
  have a1: "(2::real) powi k < 2 powi (expo x + 1)" using assms(1) b(2) by linarith
  have "k < expo x + 1"
  proof (rule ccontr)
    assume "\<not> k < expo x + 1"
    then have "expo x + 1 \<le> k" by simp
    then have "(2::real) powi (expo x + 1) \<le> 2 powi k" by (rule power_int_increasing) simp
    with a1 show False by linarith
  qed
  moreover have a2: "(2::real) powi expo x < 2 powi (k + 1)" using assms(2) b(1) by linarith
  have "expo x < k + 1"
  proof (rule ccontr)
    assume "\<not> expo x < k + 1"
    then have "k + 1 \<le> expo x" by simp
    then have "(2::real) powi (k + 1) \<le> 2 powi expo x" by (rule power_int_increasing) simp
    with a2 show False by linarith
  qed
  ultimately show ?thesis by simp
qed

lemma round_to_int_exact:
  assumes "\<bar>k\<bar> < 2 ^ p"
  shows "round_to p (of_int k) = of_int k"
proof (cases "k = 0")
  case True
  then show ?thesis by (simp add: round_to_zero)
next
  case False
  define x :: real where "x = of_int k"
  have x0: "x \<noteq> 0" using False by (simp add: x_def)
  from assms have "(of_int \<bar>k\<bar> :: real) < of_int (2 ^ p)" by (simp only: of_int_less_iff)
  then have "\<bar>x\<bar> < 2 powi int p" by (simp add: x_def)
  with expo_bounds(1) [OF x0] have lt: "(2::real) powi expo x < 2 powi int p" by linarith
  have "expo x < int p"
  proof (rule ccontr)
    assume "\<not> expo x < int p"
    then have "int p \<le> expo x" by simp
    then have "(2::real) powi int p \<le> 2 powi expo x" by (rule power_int_increasing) simp
    with lt show False by linarith
  qed
  then have "expo x - int p + 1 = - int (nat (int p - 1 - expo x))" by simp
  then obtain d where d: "expo x - int p + 1 = - int d" ..
  have s: "2 powi (expo x - int p + 1) = 1 / (2::real) ^ d"
    unfolding d by (simp only: power_int_minus_divide power_int_of_nat)
  have "x / (1 / 2 ^ d) = of_int (k * 2 ^ d)" by (simp add: x_def)
  then have "round_half_even (x / (1 / 2 ^ d)) = k * 2 ^ d"
    by (simp only: round_half_even_int)
  then have "round_to p x = of_int (k * 2 ^ d) * (1 / 2 ^ d)"
    unfolding round_to_scaled [OF x0] s by simp
  then show ?thesis by (simp add: x_def)
qed

lemma round_to_ge_pow:
  assumes "0 < x" "0 < p"
  shows "2 powi expo x \<le> round_to p x"
proof -
  from assms(1) have x0: "x \<noteq> 0" by simp
  define s :: real where "s = 2 powi (expo x - int p + 1)"
  have spos: "0 < s" by (simp add: s_def)
  have e: "2 powi expo x = of_int (2 ^ (p - 1)) * s"
  proof -
    have "int (p - 1) + (expo x - int p + 1) = expo x" using assms(2) by simp
    then have "(2::real) powi expo x = 2 powi int (p - 1) * 2 powi (expo x - int p + 1)"
      using power_int_add [of "2::real" "int (p - 1)" "expo x - int p + 1"] by simp
    then show ?thesis by (simp add: s_def)
  qed
  have "2 powi expo x \<le> x" using expo_bounds(1) [OF x0] assms(1) by simp
  then have "of_int (2 ^ (p - 1)) \<le> x / s"
    unfolding e using spos by (simp add: field_simps)
  then have "2 ^ (p - 1) \<le> round_half_even (x / s)" by (rule round_half_even_ge)
  then have "of_int (2 ^ (p - 1)) * s \<le> of_int (round_half_even (x / s)) * s"
    using spos by (intro mult_right_mono) simp_all
  then show ?thesis
    unfolding e round_to_scaled [OF x0] s_def .
qed

lemma round_to_le_pow:
  assumes "0 < x"
  shows "round_to p x \<le> 2 powi (expo x + 1)"
proof -
  from assms(1) have x0: "x \<noteq> 0" by simp
  define s :: real where "s = 2 powi (expo x - int p + 1)"
  have spos: "0 < s" by (simp add: s_def)
  have e: "2 powi (expo x + 1) = of_int (2 ^ p) * s"
  proof -
    have "int p + (expo x - int p + 1) = expo x + 1" by simp
    then have "(2::real) powi (expo x + 1) = 2 powi int p * 2 powi (expo x - int p + 1)"
      using power_int_add [of "2::real" "int p" "expo x - int p + 1"] by simp
    then show ?thesis by (simp add: s_def)
  qed
  have "x < 2 powi (expo x + 1)" using expo_bounds(2) [OF x0] assms(1) by simp
  then have "x / s \<le> of_int (2 ^ p)"
    unfolding e using spos by (simp add: field_simps)
  then have "round_half_even (x / s) \<le> 2 ^ p" by (rule round_half_even_le)
  then have "of_int (round_half_even (x / s)) * s \<le> of_int (2 ^ p) * s"
    using spos by (intro mult_right_mono) simp_all
  then show ?thesis
    unfolding e round_to_scaled [OF x0] s_def .
qed

lemma pow2_split: "(2::real) powi (a + b) = 2 powi a * 2 powi b"
  using power_int_add [of "2::real" a b] by simp

lemma round_to_less_pow2:
  assumes "0 < p" "0 \<le> y"
  shows "round_to p y < 2 powi k \<longleftrightarrow> y < 2 powi k - 2 powi (k - int p - 1)"
proof (cases "y = 0")
  case True
  have "(2::real) powi (k - int p - 1) \<le> 2 powi (k - 1)"
    by (rule power_int_increasing) simp_all
  moreover have "(2::real) powi k = 2 * 2 powi (k - 1)"
    using pow2_split [of 1 "k - 1"] by simp
  moreover have "(0::real) < 2 powi (k - 1)" by simp
  ultimately have "(0::real) < 2 powi k - 2 powi (k - int p - 1)" by linarith
  then show ?thesis using True by (simp add: round_to_zero)
next
  case False
  with assms(2) have ypos: "0 < y" by simp
  have y0: "y \<noteq> 0" by (rule False)
  have eb: "2 powi expo y \<le> y" "y < 2 powi (expo y + 1)"
    using expo_bounds [OF y0] ypos by simp_all
  have small: "(2::real) powi (k - int p - 1) \<le> 2 powi (k - 1)"
    by (rule power_int_increasing) simp_all
  have dbl: "(2::real) powi k = 2 * 2 powi (k - 1)"
    using pow2_split [of 1 "k - 1"] by simp
  have tiny: "(0::real) < 2 powi (k - int p - 1)" by simp
  consider (hi) "k \<le> expo y" | (lo) "expo y + 2 \<le> k" | (mid) "expo y = k - 1"
    by linarith
  then show ?thesis
  proof cases
    case hi
    then have m: "(2::real) powi k \<le> 2 powi expo y" by (rule power_int_increasing) simp
    with round_to_ge_pow [OF ypos assms(1)] have "\<not> round_to p y < 2 powi k" by linarith
    moreover from m eb(1) tiny have "\<not> y < 2 powi k - 2 powi (k - int p - 1)" by linarith
    ultimately show ?thesis by simp
  next
    case lo
    then have "expo y + 1 \<le> k - 1" by simp
    then have m: "(2::real) powi (expo y + 1) \<le> 2 powi (k - 1)"
      by (rule power_int_increasing) simp
    have pos: "(0::real) < 2 powi (k - 1)" by simp
    from m round_to_le_pow [OF ypos, of p] dbl pos have "round_to p y < 2 powi k" by linarith
    moreover from m eb(2) small dbl have "y < 2 powi k - 2 powi (k - int p - 1)" by linarith
    ultimately show ?thesis by simp
  next
    case mid
    define s :: real where "s = 2 powi (k - int p)"
    have spos: "0 < s" by (simp add: s_def)
    have se: "2 powi (expo y - int p + 1) = s" by (simp add: s_def mid)
    have r: "round_to p y = of_int (round_half_even (y / s)) * s"
      using round_to_scaled [OF y0, of p] by (simp only: se)
    have kk: "2 powi k = of_int (2 ^ p) * s"
      using pow2_split [of "int p" "k - int p"] by (simp add: s_def)
    have half: "2 powi (k - int p - 1) = s / 2"
      using pow2_split [of "-1" "k - int p"] by (simp add: s_def power_int_minus_divide)
    have ev: "even ((2::int) ^ p)" using assms(1) by simp
    have "round_to p y < 2 powi k \<longleftrightarrow> round_half_even (y / s) < 2 ^ p"
      unfolding r kk using spos by (simp add: mult_less_cancel_right)
    also have "\<dots> \<longleftrightarrow> y / s < of_int (2 ^ p) - 1 / 2"
      by (rule round_half_even_less_even [OF ev])
    also have "\<dots> \<longleftrightarrow> y < of_int (2 ^ p) * s - s / 2"
      using spos by (simp add: field_simps)
    finally show ?thesis by (simp only: kk half)
  qed
qed

lemma bit_length_numeral:
  "bit_length (numeral k) = Suc (bit_length (numeral k div 2))"
  by (simp add: bit_length.simps [of "numeral k"])

lemma bit_length_small: "bit_length 0 = 0" "bit_length 1 = 1" "bit_length (Suc 0) = 1"
  by (simp_all add: bit_length.simps [of 0] bit_length.simps [of 1] bit_length.simps [of "Suc 0"])

lemmas round_to_eval =
  round_to_def expo_def round_half_even_def Let_def bit_length_numeral bit_length_small

lemma round_to_nonneg: "0 \<le> x \<Longrightarrow> 0 \<le> round_to p x"
proof (cases "x = 0")
  case True
  then show ?thesis by (simp add: round_to_zero)
next
  case False
  assume "0 \<le> x"
  with False have "0 < x" by simp
  then have "(0::real) \<le> x / 2 powi (expo x - int p + 1)" by simp
  then have "0 \<le> round_half_even (x / 2 powi (expo x - int p + 1))"
    using round_half_even_ge [of 0] by simp
  then show ?thesis
    unfolding round_to_scaled [OF False] by simp
qed

lemma fsqrt_less_8:
  assumes "0 \<le> S"
  shows "fsqrt S < 8 \<longleftrightarrow> S < (8 - 1 / 2 ^ 51)\<^sup>2"
proof -
  have c: "(0::real) \<le> 8 - 1 / 2 ^ 51" by simp
  have "fsqrt S < 8 \<longleftrightarrow> round_to 53 (sqrt S) < 2 powi 3"
    by (simp add: fsqrt_def)
  also have "\<dots> \<longleftrightarrow> sqrt S < 2 powi 3 - 2 powi (3 - int 53 - 1)"
    by (rule round_to_less_pow2) (simp_all add: assms)
  also have "\<dots> \<longleftrightarrow> sqrt S < 8 - 1 / 2 ^ 51"
    by (simp add: power_int_minus_divide)
  also have "\<dots> \<longleftrightarrow> sqrt S < sqrt ((8 - 1 / 2 ^ 51)\<^sup>2)"
    using c by (simp only: real_sqrt_abs abs_of_nonneg)
  also have "\<dots> \<longleftrightarrow> S < (8 - 1 / 2 ^ 51)\<^sup>2"
    by (rule real_sqrt_less_iff)
  finally show ?thesis .
qed





lemma sum_squares_nonneg:
  "0 \<le> fadd (fadd (fmul a a) (fmul b b)) (fmul c c)"
proof -
  have "0 \<le> fmul a a" "0 \<le> fmul b b" "0 \<le> fmul c c"
    by (simp_all add: fmul_def round_to_nonneg)
  then show ?thesis
    by (simp add: fadd_def round_to_nonneg)
qed

lemma getDistance_less_8:
  "getDistance (x, y, z) (x', y', z') < 8 \<longleftrightarrow>
     fadd (fadd (fmul (fsub x x') (fsub x x')) (fmul (fsub y y') (fsub y y')))
       (fmul (fsub z z') (fsub z z')) < (8 - 1 / 2 ^ 51)\<^sup>2"
  by (simp add: Let_def fsqrt_less_8 [OF sum_squares_nonneg])














subsection \<open>Extraction and loading\<close>

lemma build_seq_length: "length (build_seq acc rs) = length acc + length rs"
  by (induction rs arbitrary: acc) (auto split: sum.splits)

lemma extract_cases:
  "extract_sequence_and_contacts parsePDB f = (None, None) \<or>
   (\<exists>struc ca. parsePDB f = Inr (Some struc) \<and> select_name_CA struc = Some ca \<and>
      numAtoms struc \<le> 10000 \<and>
      extract_sequence_and_contacts parsePDB f =
        (Some (build_seq [] (getResnames ca)),
         Some (threshold_lt 8 (buildDistMatrix (getCoords ca) (getCoords ca)))))"
  by (auto simp: extract_sequence_and_contacts_def Let_def split: sum.splits option.splits)



lemma contact_shape:
  "length (threshold_lt t (buildDistMatrix cs ds)) = length cs"
  "row \<in> set (threshold_lt t (buildDistMatrix cs ds)) \<Longrightarrow> length row = length ds"
  by (auto simp: threshold_lt_def buildDistMatrix_def)



lemma round_to_small:
  "round_to 53 0 = 0" "round_to 53 3 = 3" "round_to 53 (- 3) = - 3" "round_to 53 4 = 4"
  "round_to 53 (- 4) = - 4" "round_to 53 9 = 9" "round_to 53 (- 9) = - 9"
  "round_to 53 16 = 16" "round_to 53 25 = 25" "round_to 53 81 = 81" "round_to 53 97 = 97"
  "round_to 53 106 = 106"
  using round_to_int_exact [of 0 53] round_to_int_exact [of 3 53] round_to_int_exact [of "- 3" 53]
    round_to_int_exact [of 4 53] round_to_int_exact [of "- 4" 53] round_to_int_exact [of 9 53]
    round_to_int_exact [of "- 9" 53] round_to_int_exact [of 16 53] round_to_int_exact [of 25 53]
    round_to_int_exact [of 81 53] round_to_int_exact [of 97 53] round_to_int_exact [of 106 53]
  by simp_all

lemma demo_distances:
  "getDistance (0, 0, 0) (0, 0, 0) < 8" "getDistance (3, 4, 0) (3, 4, 0) < 8"
  "getDistance (0, 0, 9) (0, 0, 9) < 8"
  "getDistance (0, 0, 0) (3, 4, 0) < 8" "getDistance (3, 4, 0) (0, 0, 0) < 8"
  "\<not> getDistance (0, 0, 0) (0, 0, 9) < 8" "\<not> getDistance (0, 0, 9) (0, 0, 0) < 8"
  "\<not> getDistance (3, 4, 0) (0, 0, 9) < 8" "\<not> getDistance (0, 0, 9) (3, 4, 0) < 8"
  unfolding getDistance_less_8
  by (simp_all add: fsub_def fmul_def fadd_def round_to_small power2_eq_square)

lemma demo_extract:
  "extract_sequence_and_contacts demo_parser ''pdb_structures/1abc.pdb'' =
     (Some ''AXG'', Some [[1, 1, 0], [1, 1, 0], [0, 0, 1]])"
  by (simp add: extract_sequence_and_contacts_def demo_parser_def demo_atoms_def
      select_name_CA_def numAtoms_def getResnames_def getCoords_def three_to_one_def d3_to_1_def
      buildDistMatrix_def threshold_lt_def demo_distances del: getDistance.simps)






text \<open>
  Claim C4. When parsing raises, when the parser returns nothing, or when the structure
  has no CA atom, the function returns \<open>(None, None)\<close>, and the iteration of the
  loading loop for that file leaves both lists as they were.
\<close>
theorem parsing_failures_skipped:
  assumes "(\<exists>ex. parsePDB pdb_file = Inl ex) \<or> parsePDB pdb_file = Inr None \<or>
           (\<exists>struc. parsePDB pdb_file = Inr (Some struc) \<and>
              filter (\<lambda>a. atom_name a = ''CA'') (atoms struc) = [])"
  shows "extract_sequence_and_contacts parsePDB pdb_file = (None, None) \<and>
         load_step parsePDB pdb_file (sequences, contact_maps) = (sequences, contact_maps) \<and>
         load_loop parsePDB (pdb_file # rest) (sequences, contact_maps) =
           load_loop parsePDB rest (sequences, contact_maps)"
proof -
  from assms have "extract_sequence_and_contacts parsePDB pdb_file = (None, None)"
    by (auto simp: extract_sequence_and_contacts_def select_name_CA_def)
  then show ?thesis by simp
qed

theorem parsing_failures_skipped_witness:
  "((\<exists>ex. demo_parser ''pdb_structures/9zzz.pdb'' = Inl ex) \<or>
    demo_parser ''pdb_structures/9zzz.pdb'' = Inr None \<or>
    (\<exists>struc. demo_parser ''pdb_structures/9zzz.pdb'' = Inr (Some struc) \<and>
       filter (\<lambda>a. atom_name a = ''CA'') (atoms struc) = [])) \<and>
   extract_sequence_and_contacts demo_parser ''pdb_structures/9zzz.pdb'' = (None, None) \<and>
   load_step demo_parser ''pdb_structures/9zzz.pdb'' ([''AXG''], [[[1, 1, 0], [1, 1, 0], [0, 0, 1]]]) =
     ([''AXG''], [[[1, 1, 0], [1, 1, 0], [0, 0, 1]]]) \<and>
   load_loop demo_parser [''pdb_structures/9zzz.pdb''] ([''AXG''], [[[1, 1, 0], [1, 1, 0], [0, 0, 1]]]) =
     load_loop demo_parser [] ([''AXG''], [[[1, 1, 0], [1, 1, 0], [0, 0, 1]]])"
proof -
  have h: "(\<exists>ex. demo_parser ''pdb_structures/9zzz.pdb'' = Inl ex) \<or>
    demo_parser ''pdb_structures/9zzz.pdb'' = Inr None \<or>
    (\<exists>struc. demo_parser ''pdb_structures/9zzz.pdb'' = Inr (Some struc) \<and>
       filter (\<lambda>a. atom_name a = ''CA'') (atoms struc) = [])"
    by (simp add: demo_parser_def)
  from parsing_failures_skipped [of demo_parser "''pdb_structures/9zzz.pdb''"
      "[''AXG'']" "[[[1, 1, 0], [1, 1, 0], [0, 0, 1]]]" "[]"] h
  show ?thesis by blast
qed

text \<open>What the loop keeps: every loaded pair is the result of extracting one of the files.\<close>

lemma load_step_all2:
  assumes "list_all2 P (fst loaded) (snd loaded)"
    and "\<And>seq cmap. extract_sequence_and_contacts parsePDB f = (Some seq, Some cmap) \<Longrightarrow> P seq cmap"
  shows "list_all2 P (fst (load_step parsePDB f loaded)) (snd (load_step parsePDB f loaded))"
  using assms
  by (cases loaded) (auto split: prod.splits option.splits intro: list_all2_appendI)

lemma load_loop_all2:
  assumes "list_all2 P (fst loaded) (snd loaded)"
    and "\<And>f seq cmap. f \<in> set fs \<Longrightarrow>
           extract_sequence_and_contacts parsePDB f = (Some seq, Some cmap) \<Longrightarrow> P seq cmap"
  shows "list_all2 P (fst (load_loop parsePDB fs loaded)) (snd (load_loop parsePDB fs loaded))"
  using assms
proof (induction fs arbitrary: loaded)
  case Nil
  then show ?case by simp
next
  case (Cons f fs)
  have "list_all2 P (fst (load_step parsePDB f loaded)) (snd (load_step parsePDB f loaded))"
    by (rule load_step_all2 [OF Cons.prems(1)]) (rule Cons.prems(2), simp_all)
  moreover have "\<And>g seq cmap. g \<in> set fs \<Longrightarrow>
      extract_sequence_and_contacts parsePDB g = (Some seq, Some cmap) \<Longrightarrow> P seq cmap"
    by (rule Cons.prems(2)) simp_all
  ultimately show ?case
    using Cons.IH [of "load_step parsePDB f loaded"] by simp
qed

text \<open>
  Claim C10. A structure that parses, has CA atoms and has more than 10000 atoms yields
  \<open>(None, None)\<close>; and whatever list of files is loaded, every loaded sequence and
  contact map is the result of extracting a file other than that one, whose structure has
  at most 10000 atoms.
\<close>
theorem atom_count_filter:
  assumes "parsePDB pdb_file = Inr (Some struc)"
    and "select_name_CA struc \<noteq> None"
    and "numAtoms struc > 10000"
  shows "extract_sequence_and_contacts parsePDB pdb_file = (None, None) \<and>
         (\<forall>pdb_files. \<forall>i < length (fst (load_loop parsePDB pdb_files ([], []))).
            \<exists>f \<in> set pdb_files. \<exists>s.
              parsePDB f = Inr (Some s) \<and> numAtoms s \<le> 10000 \<and> f \<noteq> pdb_file \<and>
              extract_sequence_and_contacts parsePDB f =
                (Some (fst (load_loop parsePDB pdb_files ([], [])) ! i),
                 Some (snd (load_loop parsePDB pdb_files ([], [])) ! i)))"
proof (intro conjI allI impI)
  show none: "extract_sequence_and_contacts parsePDB pdb_file = (None, None)"
    using assms by (auto simp: extract_sequence_and_contacts_def)
  fix pdb_files i
  let ?P = "\<lambda>seq cmap. \<exists>f \<in> set pdb_files. \<exists>s.
              parsePDB f = Inr (Some s) \<and> numAtoms s \<le> 10000 \<and> f \<noteq> pdb_file \<and>
              extract_sequence_and_contacts parsePDB f = (Some seq, Some cmap)"
  assume i: "i < length (fst (load_loop parsePDB pdb_files ([], [])))"
  have "list_all2 ?P (fst (load_loop parsePDB pdb_files ([], [])))
          (snd (load_loop parsePDB pdb_files ([], [])))"
  proof (rule load_loop_all2)
    show "list_all2 ?P (fst ([], [])) (snd ([], []))" by simp
  next
    fix f seq cmap
    assume f: "f \<in> set pdb_files"
      and ex: "extract_sequence_and_contacts parsePDB f = (Some seq, Some cmap)"
    from extract_cases [of parsePDB f] ex
    obtain s where "parsePDB f = Inr (Some s)" "numAtoms s \<le> 10000" by auto
    moreover from ex none have "f \<noteq> pdb_file" by auto
    ultimately show "?P seq cmap" using f ex by blast
  qed
  from list_all2_nthD [OF this i]
  show "\<exists>f \<in> set pdb_files. \<exists>s.
          parsePDB f = Inr (Some s) \<and> numAtoms s \<le> 10000 \<and> f \<noteq> pdb_file \<and>
          extract_sequence_and_contacts parsePDB f =
            (Some (fst (load_loop parsePDB pdb_files ([], [])) ! i),
             Some (snd (load_loop parsePDB pdb_files ([], [])) ! i))" .
qed

lemma demo_big: "demo_parser ''pdb_structures/2big.pdb'' =
   Inr (Some \<lparr>atoms = replicate 10001
         \<lparr>atom_name = ''CA'', resname = ''GLY'', atom_coords = (0, 0, 0)\<rparr>\<rparr>)"
  by (simp add: demo_parser_def)

theorem atom_count_filter_witness:
  "numAtoms \<lparr>atoms = replicate 10001
         \<lparr>atom_name = ''CA'', resname = ''GLY'', atom_coords = (0, 0, 0)\<rparr>\<rparr> > 10000 \<and>
   extract_sequence_and_contacts demo_parser ''pdb_structures/2big.pdb'' = (None, None) \<and>
   load_loop demo_parser [''pdb_structures/2big.pdb'', ''pdb_structures/1abc.pdb''] ([], []) =
     ([''AXG''], [[[1, 1, 0], [1, 1, 0], [0, 0, 1]]])"
proof -
  have sel: "select_name_CA \<lparr>atoms = replicate 10001
         \<lparr>atom_name = ''CA'', resname = ''GLY'', atom_coords = (0, 0, 0)\<rparr>\<rparr> \<noteq> None"
    by (simp add: select_name_CA_def)
  have big: "numAtoms \<lparr>atoms = replicate 10001
         \<lparr>atom_name = ''CA'', resname = ''GLY'', atom_coords = (0, 0, 0)\<rparr>\<rparr> > 10000"
    by (simp add: numAtoms_def)
  from atom_count_filter [of demo_parser "''pdb_structures/2big.pdb''", OF demo_big sel big]
  have none: "extract_sequence_and_contacts demo_parser ''pdb_structures/2big.pdb'' = (None, None)"
    by blast
  show ?thesis using big none demo_extract by simp
qed

lemma extract_square:
  assumes "extract_sequence_and_contacts parsePDB f = (Some seq, Some cmap)"
  shows "length cmap = length seq \<and> (\<forall>row \<in> set cmap. length row = length seq)"
proof -
  from extract_cases [of parsePDB f] assms
  obtain ca where "seq = build_seq [] (getResnames ca)"
    and "cmap = threshold_lt 8 (buildDistMatrix (getCoords ca) (getCoords ca))"
    by auto
  then show ?thesis
    by (auto simp: build_seq_length contact_shape getResnames_def getCoords_def)
qed

text \<open>
  Claim C7. In the loaded data the two lists have the same length, every contact map is
  square with the length of its sequence as side, and \<open>__getitem__\<close> passes its
  dimension assertion for every item whose embedding has one row per sequence character.
\<close>
theorem parallel_array_invariant:
  assumes "load_data exists parsePDB pdb_ids = (sequences, contact_maps)"
  shows "length contact_maps = length sequences \<and>
         (\<forall>i < length sequences.
            length (contact_maps ! i) = length (sequences ! i) \<and>
            (\<forall>row \<in> set (contact_maps ! i). length row = length (sequences ! i)) \<and>
            (\<forall>embeddings.
               i < length embeddings \<and> length (embeddings ! i) = length (sequences ! i) \<longrightarrow>
               getitem \<lparr>ds_sequences = sequences, ds_contact_maps = contact_maps,
                        ds_esm_embeddings = embeddings\<rparr> i =
                 Inr (embeddings ! i, contact_maps ! i)))"
proof -
  let ?P = "\<lambda>seq cmap. length (cmap :: matrix) = length (seq :: string) \<and>
              (\<forall>row \<in> set cmap. length row = length seq)"
  let ?fs = "filter exists (map (pdb_path ''pdb_structures'') pdb_ids)"
  have "list_all2 ?P (fst (load_loop parsePDB ?fs ([], []))) (snd (load_loop parsePDB ?fs ([], [])))"
    by (rule load_loop_all2) (simp, rule extract_square)
  with assms have all2: "list_all2 ?P sequences contact_maps"
    by (simp add: load_data_def)
  then have len: "length contact_maps = length sequences"
    by (simp add: list_all2_lengthD)
  have sq: "?P (sequences ! i) (contact_maps ! i)" if "i < length sequences" for i
    using list_all2_nthD [OF all2 that] .
  show ?thesis
    using len sq by (simp add: getitem_def)
qed

lemma demo_load:
  "load_data (\<lambda>p. p \<noteq> ''pdb_structures/5off.pdb'') demo_parser
     [''2big_1'', ''1abc_2'', ''5off_1'', ''3wat_1'', ''4nil_1'', ''1abc_1''] =
   ([''AXG'', ''AXG''],
    [[[1, 1, 0], [1, 1, 0], [0, 0, 1]], [[1, 1, 0], [1, 1, 0], [0, 0, 1]]])"
proof -
  have big: "extract_sequence_and_contacts demo_parser ''pdb_structures/2big.pdb'' = (None, None)"
    by (simp add: extract_sequence_and_contacts_def demo_parser_def select_name_CA_def numAtoms_def)
  have wat: "extract_sequence_and_contacts demo_parser ''pdb_structures/3wat.pdb'' = (None, None)"
    by (simp add: extract_sequence_and_contacts_def demo_parser_def select_name_CA_def)
  have nil: "extract_sequence_and_contacts demo_parser ''pdb_structures/4nil.pdb'' = (None, None)"
    by (simp add: extract_sequence_and_contacts_def demo_parser_def)
  show ?thesis
    by (simp add: load_data_def pdb_path_def path_join_def entry_id_of_def big wat nil demo_extract)
qed

theorem parallel_array_invariant_witness:
  "load_data (\<lambda>p. p \<noteq> ''pdb_structures/5off.pdb'') demo_parser
     [''2big_1'', ''1abc_2'', ''5off_1'', ''3wat_1'', ''4nil_1'', ''1abc_1''] =
   ([''AXG'', ''AXG''],
    [[[1, 1, 0], [1, 1, 0], [0, 0, 1]], [[1, 1, 0], [1, 1, 0], [0, 0, 1]]]) \<and>
   getitem \<lparr>ds_sequences = [''AXG'', ''AXG''],
            ds_contact_maps = [[[1, 1, 0], [1, 1, 0], [0, 0, 1]], [[1, 1, 0], [1, 1, 0], [0, 0, 1]]],
            ds_esm_embeddings = [[[1, 2], [3, 4], [5, 6]], [[0, 1], [1, 0], [1, 1]]]\<rparr> 1 =
     Inr ([[0, 1], [1, 0], [1, 1]], [[1, 1, 0], [1, 1, 0], [0, 0, 1]])"
proof -
  from parallel_array_invariant [OF demo_load]
  have "\<forall>i < length [''AXG'', ''AXG''].
          \<forall>embeddings.
             i < length embeddings \<and> length (embeddings ! i) = length ([''AXG'', ''AXG''] ! i) \<longrightarrow>
             getitem \<lparr>ds_sequences = [''AXG'', ''AXG''],
                ds_contact_maps = [[[1, 1, 0], [1, 1, 0], [0, 0, 1]], [[1, 1, 0], [1, 1, 0], [0, 0, 1]]],
                ds_esm_embeddings = embeddings\<rparr> i =
               Inr (embeddings ! i,
                    [[[1, 1, 0], [1, 1, 0], [0, 0, 1]], [[1, 1, 0], [1, 1, 0], [0, 0, 1]]] ! i)"
    by blast
  from this [rule_format, of 1 "[[[1, 2], [3, 4], [5, 6]], [[0, 1], [1, 0], [1, 1]]]"]
  show ?thesis using demo_load by simp
qed

subsection \<open>Aggregating similar structures\<close>

lemma zip_take_nth:
  assumes "k \<le> length xs" "k \<le> length ys"
  shows "zip (take k xs) (take k ys) = map (\<lambda>i. (xs ! i, ys ! i)) [0..<k]"
  using assms by (intro nth_equalityI) auto

lemma similarity_match_fraction:
  assumes "sequence \<noteq> []" "seq \<noteq> []"
  shows "similarity sequence seq = Inr (round_to 53 (match_fraction sequence seq))"
proof -
  let ?m = "min (length sequence) (length seq)"
  have m: "?m \<noteq> 0" using assms by simp
  have "filter (\<lambda>(a, b). a = b) (zip (take ?m sequence) (take ?m seq)) =
        map (\<lambda>i. (sequence ! i, seq ! i)) (filter (\<lambda>i. sequence ! i = seq ! i) [0..<?m])"
    by (simp add: zip_take_nth filter_map comp_def)
  then have "length (filter (\<lambda>(a, b). a = b) (zip (take ?m sequence) (take ?m seq))) =
        length (filter (\<lambda>i. sequence ! i = seq ! i) [0..<?m])"
    by simp
  with m show ?thesis
    by (simp add: similarity_def match_fraction_def Let_def)
qed

lemma collect_similar_filter:
  assumes "sequence \<noteq> []" "\<forall>(seq, cmap) \<in> set ps. seq \<noteq> []"
  shows "collect_similar sequence threshold ps acc =
     Inr (acc @ map (\<lambda>(seq, cmap). resize (length sequence) cmap)
                  (filter (\<lambda>(seq, cmap). round_to 53 (match_fraction sequence seq) > threshold) ps))"
  using assms(2)
proof (induction ps arbitrary: acc)
  case Nil
  then show ?case by simp
next
  case (Cons p ps)
  obtain seq cmap where p: "p = (seq, cmap)" by (cases p)
  with Cons.prems have "seq \<noteq> []" by simp
  then have sim: "similarity sequence seq = Inr (round_to 53 (match_fraction sequence seq))"
    using assms(1) by (simp add: similarity_match_fraction)
  from Cons.prems have rest: "\<forall>(seq, cmap) \<in> set ps. seq \<noteq> []" by simp
  show ?case
    by (simp add: p sim Cons.IH [OF rest])
qed

lemma find_similar_structures_unfold:
  assumes "sequence \<noteq> []" "\<forall>(seq, cmap) \<in> set (zip sequences contact_maps). seq \<noteq> []"
  shows "find_similar_structures np sequence sequences contact_maps threshold =
     (let similar = similar_maps sequence sequences contact_maps threshold
      in if similar \<noteq> []
         then (case np_mean_axis0 np similar of
                 Inl ex \<Rightarrow> Inl ex
               | Inr agg \<Rightarrow> if length agg \<noteq> length sequence
                            then Inr (resize (length sequence) agg) else Inr agg)
         else Inr (np_zeros (length sequence) (length sequence)))"
  by (simp add: find_similar_structures_def similar_maps_def Let_def
      collect_similar_filter [OF assms] resize_def)

text \<open>A map with at least \<open>n\<close> rows and columns is truncated to exactly \<open>n\<close> rows and
  columns, whose entries are entries of the map.\<close>

lemma resize_exact:
  assumes "n \<le> length cmap" "\<forall>row \<in> set cmap. n \<le> length row"
  shows "length (resize n cmap) = n"
    and "i < n \<Longrightarrow> length (resize n cmap ! i) = n"
    and "i < n \<Longrightarrow> j < n \<Longrightarrow> resize n cmap ! i ! j = cmap ! i ! j"
proof -
  show "length (resize n cmap) = n"
    using assms(1) by (simp add: resize_def)
  assume i: "i < n"
  with assms(1) have "cmap ! i \<in> set cmap" by simp
  with assms(2) have "n \<le> length (cmap ! i)" by blast
  with i assms(1) show "length (resize n cmap ! i) = n"
    by (simp add: resize_def)
  assume "j < n"
  with i assms(1) show "resize n cmap ! i ! j = cmap ! i ! j"
    by (simp add: resize_def)
qed

text \<open>A float32 sum of fewer than \<open>2^24\<close> zeros and ones is exact when the values are
  added one after the other: every partial sum is a whole number below \<open>2^24\<close>.\<close>

lemma f32_add_sequential_exact:
  assumes "length vs < 2 ^ 24" "\<forall>v \<in> set vs. v = 0 \<or> v = 1"
  shows "\<exists>k. k \<le> length vs \<and> sum_list vs = real k \<and> foldl f32_add 0 vs = real k"
  using assms
proof (induction vs rule: rev_induct)
  case Nil
  then show ?case by simp
next
  case (snoc v vs)
  from snoc.prems have "length vs < 2 ^ 24" "\<forall>v \<in> set vs. v = 0 \<or> v = 1" by simp_all
  from snoc.IH [OF this]
  obtain k where k: "k \<le> length vs" "sum_list vs = real k" "foldl f32_add 0 vs = real k"
    by blast
  from snoc.prems(2) have "v = 0 \<or> v = 1" by simp
  then obtain d :: nat where d: "v = real d" "d \<le> 1" by (auto intro: that [of 0] that [of 1])
  have small: "\<bar>int (k + d)\<bar> < 2 ^ 24"
    using k(1) d(2) snoc.prems(1) by simp
  have "f32_add (real k) v = round_to 24 (of_int (int (k + d)))"
    by (simp add: f32_add_def d(1))
  also have "\<dots> = of_int (int (k + d))"
    using small by (rule round_to_int_exact)
  finally have "f32_add (real k) v = real (k + d)" by simp
  with k d show ?case
    by (intro exI [of _ "k + d"]) simp
qed

lemma float32_sum_exact:
  assumes "add_reduce np vs = sum_list vs"
  shows "float32_sum np vs = sum_list vs"
proof (cases vs)
  case Nil
  then show ?thesis using assms by (simp add: float32_sum_def)
next
  case (Cons v ws)
  then show ?thesis using assms by (cases ws) (simp_all add: float32_sum_def)
qed

text \<open>
  Claim C2, amended. For a non-empty input and a database of non-empty sequences, with
  the similarity of a database sequence the double nearest to its fraction of matching
  positions: when the contact map of every sequence above the threshold has at least \<open>len(sequence)\<close>
  rows and columns and entries 0 or 1, and fewer than \<open>2^24\<close> sequences are above the
  threshold, the function returns the \<open>len(sequence)\<close> by \<open>len(sequence)\<close> matrix whose
  entry \<open>(i, j)\<close> is the float32 nearest to the mean of the entries \<open>(i, j)\<close> of the
  maps of exactly those sequences; when no sequence is above the threshold it returns the
  zero matrix of that shape. The library enters with one property of float32 addition
  only: a sum of fewer than \<open>2^24\<close> zeros and ones is exact.
\<close>
theorem similarity_aggregation:
  assumes "sequence \<noteq> []"
    and "\<forall>(seq, cmap) \<in> set (zip sequences contact_maps). seq \<noteq> []"
    and "similar = similar_maps sequence sequences contact_maps threshold"
    and "\<forall>(seq, cmap) \<in> set (zip sequences contact_maps).
           round_to 53 (match_fraction sequence seq) > threshold \<longrightarrow>
             length sequence \<le> length cmap \<and>
             (\<forall>row \<in> set cmap. length sequence \<le> length row \<and> (\<forall>v \<in> set row. v = 0 \<or> v = 1))"
    and "length similar < 2 ^ 24"
    and "\<forall>vs. length vs < 2 ^ 24 \<and> (\<forall>v \<in> set vs. v = 0 \<or> v = 1) \<longrightarrow>
           add_reduce np vs = sum_list vs"
  shows "find_similar_structures np sequence sequences contact_maps threshold =
           (if similar = []
            then Inr (replicate (length sequence) (replicate (length sequence) 0))
            else Inr (map (\<lambda>i. map (\<lambda>j.
                        round_to 24 ((\<Sum>m\<leftarrow>similar. m ! i ! j) / real (length similar)))
                        [0..<length sequence]) [0..<length sequence]))"
proof (cases "similar = []")
  case True
  then show ?thesis
    using find_similar_structures_unfold [OF assms(1,2), of np threshold] assms(3)
    by (simp add: Let_def np_zeros_def)
next
  case False
  let ?n = "length sequence"
  have each: "length m = ?n \<and> (\<forall>i < ?n. length (m ! i) = ?n \<and>
      (\<forall>j < ?n. m ! i ! j = 0 \<or> m ! i ! j = 1))" if "m \<in> set similar" for m
  proof -
    from that assms(3) obtain seq cmap where sc: "(seq, cmap) \<in> set (zip sequences contact_maps)"
      and above: "round_to 53 (match_fraction sequence seq) > threshold"
      and m: "m = resize ?n cmap"
      by (auto simp: similar_maps_def resize_def)
    from assms(4) sc above have big: "?n \<le> length cmap"
      and rows: "\<forall>row \<in> set cmap. ?n \<le> length row \<and> (\<forall>v \<in> set row. v = 0 \<or> v = 1)"
      by blast+
    from rows have wide: "\<forall>row \<in> set cmap. ?n \<le> length row" by blast
    have "m ! i ! j = 0 \<or> m ! i ! j = 1" if "i < ?n" "j < ?n" for i j
    proof -
      from that big have r: "cmap ! i \<in> set cmap" by simp
      from wide r have "?n \<le> length (cmap ! i)" by blast
      with that(2) have "cmap ! i ! j \<in> set (cmap ! i)" by simp
      with rows r have "cmap ! i ! j = 0 \<or> cmap ! i ! j = 1" by blast
      then show ?thesis
        unfolding m by (simp only: resize_exact(3) [OF big wide that])
    qed
    then show ?thesis
      unfolding m using resize_exact(1,2) [OF big wide] by simp
  qed
  from False have hd_in: "hd similar \<in> set similar" by simp
  have shape_of: "map length m = replicate ?n ?n" if "m \<in> set similar" for m
    using each [OF that] by (intro nth_equalityI) simp_all
  have "list_all (same_shape (hd similar)) similar"
    unfolding list_all_iff same_shape_def using shape_of hd_in by simp
  then have mean: "np_mean_axis0 np similar =
      Inr (map (\<lambda>i. map (\<lambda>j. f32_div (float32_sum np (map (\<lambda>m. m ! i ! j) similar))
                                (real (length similar)))
                      [0..<length (hd similar ! i)])
               [0..<length (hd similar)])"
    by (simp add: np_mean_axis0_def)
  have sum: "float32_sum np (map (\<lambda>m. m ! i ! j) similar) = (\<Sum>m\<leftarrow>similar. m ! i ! j)"
    if "i < ?n" "j < ?n" for i j
  proof -
    let ?vs = "map (\<lambda>m. m ! i ! j) similar"
    have bits: "\<forall>v \<in> set ?vs. v = 0 \<or> v = 1"
      using each that by auto
    have len: "length ?vs < 2 ^ 24" using assms(5) by simp
    from assms(6) len bits have "add_reduce np ?vs = sum_list ?vs" by blast
    then have "float32_sum np ?vs = sum_list ?vs"
      by (rule float32_sum_exact)
    then show ?thesis .
  qed
  have "map (\<lambda>i. map (\<lambda>j. f32_div (float32_sum np (map (\<lambda>m. m ! i ! j) similar))
                        (real (length similar))) [0..<length (hd similar ! i)])
          [0..<length (hd similar)] =
        map (\<lambda>i. map (\<lambda>j. round_to 24 ((\<Sum>m\<leftarrow>similar. m ! i ! j) / real (length similar)))
          [0..<?n]) [0..<?n]"
    using each [OF hd_in] by (simp add: f32_div_def sum)
  with mean have agg: "np_mean_axis0 np similar =
      Inr (map (\<lambda>i. map (\<lambda>j. round_to 24 ((\<Sum>m\<leftarrow>similar. m ! i ! j) / real (length similar)))
          [0..<?n]) [0..<?n])"
    by simp
  show ?thesis
    using find_similar_structures_unfold [OF assms(1,2), of np threshold] assms(3) False
    by (simp add: Let_def agg [unfolded assms(3)])
qed

lemma double_values:
  "round_to 53 0 = 0" "round_to 53 1 = 1" "round_to 53 (1 / 2) = 1 / 2"
  by (simp_all add: round_to_eval)

lemma demo_similar_maps:
  "similar_maps ''AB'' [''ABC'', ''XY'', ''AC'']
     [[[1, 1, 0], [1, 1, 1], [0, 1, 1]], [[1, 0], [0, 1]], [[1, 0], [0, 1]]] default_threshold =
   [[[1, 1], [1, 1]], [[1, 0], [0, 1]]]"
  by (simp add: similar_maps_def match_fraction_def default_threshold_def resize_def upt_conv_Cons
      double_values)

lemma demo_numpy_exact:
  "\<forall>vs. length vs < 2 ^ 24 \<and> (\<forall>v \<in> set vs. v = 0 \<or> v = 1) \<longrightarrow>
     add_reduce demo_numpy vs = sum_list vs"
proof (intro allI impI)
  fix vs :: "real list"
  assume h: "length vs < 2 ^ 24 \<and> (\<forall>v \<in> set vs. v = 0 \<or> v = 1)"
  from h have "length vs < 2 ^ 24" "\<forall>v \<in> set vs. v = 0 \<or> v = 1" by blast+
  from f32_add_sequential_exact [OF this]
  obtain k where "sum_list vs = real k" "foldl f32_add 0 vs = real k" by blast
  then show "add_reduce demo_numpy vs = sum_list vs"
    by (simp add: demo_numpy_def)
qed

lemma float32_values:
  "round_to 24 1 = 1" "round_to 24 (1 / 2) = 1 / 2" "round_to 24 2 = 2" "round_to 24 3 = 3"
  "round_to 24 (1 / 3) = 11184811 / 33554432"
  by (simp_all add: round_to_eval)

theorem similarity_aggregation_witness:
  "''AB'' \<noteq> [] \<and>
   similar_maps ''AB'' [''ABC'', ''XY'', ''AC'']
     [[[1, 1, 0], [1, 1, 1], [0, 1, 1]], [[1, 0], [0, 1]], [[1, 0], [0, 1]]] default_threshold =
     [[[1, 1], [1, 1]], [[1, 0], [0, 1]]] \<and>
   length [[[1, 1], [1, 1]], [[1, 0], [0, 1::real]]] < 2 ^ 24 \<and>
   find_similar_structures demo_numpy ''AB'' [''ABC'', ''XY'', ''AC'']
     [[[1, 1, 0], [1, 1, 1], [0, 1, 1]], [[1, 0], [0, 1]], [[1, 0], [0, 1]]] default_threshold =
     Inr [[1, 1 / 2], [1 / 2, 1]]"
proof -
  have ne: "''AB'' \<noteq> []" by simp
  have db: "\<forall>(seq, cmap) \<in> set (zip [''ABC'', ''XY'', ''AC'']
      [[[1, 1, 0], [1, 1, 1], [0, 1, 1]], [[1, 0], [0, 1]], [[1, 0], [0, 1::real]]]). seq \<noteq> []"
    by simp
  have big: "\<forall>(seq, cmap) \<in> set (zip [''ABC'', ''XY'', ''AC'']
      [[[1, 1, 0], [1, 1, 1], [0, 1, 1]], [[1, 0], [0, 1]], [[1, 0], [0, 1::real]]]).
        round_to 53 (match_fraction ''AB'' seq) > default_threshold \<longrightarrow>
          length ''AB'' \<le> length cmap \<and>
          (\<forall>row \<in> set cmap. length ''AB'' \<le> length row \<and> (\<forall>v \<in> set row. v = 0 \<or> v = 1))"
    by (simp add: match_fraction_def upt_conv_Cons double_values default_threshold_def)
  have few: "length [[[1, 1], [1, 1]], [[1, 0], [0, 1::real]]] < 2 ^ 24" by simp
  note t = similarity_aggregation [OF ne db demo_similar_maps [symmetric] big few demo_numpy_exact]
  from t have r: "find_similar_structures demo_numpy ''AB'' [''ABC'', ''XY'', ''AC'']
     [[[1, 1, 0], [1, 1, 1], [0, 1, 1]], [[1, 0], [0, 1]], [[1, 0], [0, 1]]] default_threshold =
     Inr [[1, 1 / 2], [1 / 2, 1]]"
    by (simp add: upt_conv_Cons float32_values)
  show ?thesis by (intro conjI ne demo_similar_maps few r)
qed

text \<open>As stated the claim fails where a sequence is empty: the quotient divides by zero.
  And the mean is a float32: of three maps with entries 1, 0 and 0 the function returns
  \<open>11184811 / 2^25\<close>, not a third.\<close>

lemma similarity_values:
  "similarity [] ''A'' = Inl ZeroDivisionError"
  "similarity ''A'' ''A'' = Inr 1"
  "similarity ''AAA'' ''AA'' = Inr 1"
  by (simp_all add: similarity_def double_values)

theorem similarity_aggregation_counterexample:
  "find_similar_structures demo_numpy [] [''A''] [[[1]]] default_threshold =
     Inl ZeroDivisionError \<and>
   find_similar_structures demo_numpy ''A'' [''A'', ''A'', ''A''] [[[1]], [[0]], [[0]]]
     default_threshold = Inr [[11184811 / 33554432]] \<and>
   (11184811 / 33554432 :: real) \<noteq> 1 / 3"
proof -
  have sums: "f32_add (f32_add (f32_add 0 1) 0) 0 = 1"
    by (simp add: f32_add_def float32_values)
  have a: "find_similar_structures demo_numpy [] [''A''] [[[1]]] default_threshold =
      Inl ZeroDivisionError"
    by (simp add: find_similar_structures_def similarity_values)
  have b: "find_similar_structures demo_numpy ''A'' [''A'', ''A'', ''A''] [[[1]], [[0]], [[0]]]
      default_threshold = Inr [[11184811 / 33554432]]"
    by (simp add: find_similar_structures_def similarity_values default_threshold_def
        resize_def np_mean_axis0_def same_shape_def float32_sum_def demo_numpy_def sums
        f32_div_def float32_values)
  have c: "(11184811 / 33554432 :: real) \<noteq> 1 / 3" by simp
  show ?thesis by (intro conjI a b c)
qed

text \<open>
  Claim C9 fails on the code: a database sequence above the threshold that is shorter than
  the input contributes a map with fewer rows than \<open>len(sequence)\<close>; slicing does not
  enlarge it, and the function returns a 2-by-2 matrix for an input of length 3.
\<close>
theorem find_similar_structures_short_map:
  "find_similar_structures np ''AAA'' [''AA''] [[[1, 1], [1, 1]]] default_threshold =
     Inr [[1, 1], [1, 1]] \<and>
   length [[1, 1], [1, 1::real]] \<noteq> length ''AAA''"
  by (simp add: find_similar_structures_def similarity_values default_threshold_def
      resize_def np_mean_axis0_def same_shape_def float32_sum_def f32_div_def float32_values
      upt_conv_Cons)

subsection \<open>Downloading\<close>

lemma try_download_failure:
  assumes "request_failure e url = Some ex"
  shows "try_download e download_dir entry_id url w = (Some ex, w)"
  using assms
  by (auto simp: try_download_def request_failure_def split: sum.splits option.splits)

lemma raise_for_status_class:
  "raise_for_status resp = Some ex \<Longrightarrow> is_RequestException ex"
  by (auto simp: raise_for_status_def split: if_splits)

lemma try_download_class:
  assumes "\<forall>u ex. requests_get e u = Inl ex \<longrightarrow> is_RequestException ex"
    and "\<forall>p ex. open_error e p = Some ex \<longrightarrow> is_RequestException ex"
    and "\<forall>p ex partial. write_error e p = Some (ex, partial) \<longrightarrow> is_RequestException ex"
    and "try_download e download_dir entry_id url w = (Some ex, w')"
  shows "is_RequestException ex"
  using assms raise_for_status_class
  by (fastforce simp: try_download_def Let_def split: sum.splits option.splits prod.splits)

lemma download_loop_returns:
  assumes "\<forall>u ex. requests_get e u = Inl ex \<longrightarrow> is_RequestException ex"
    and "\<forall>p ex. open_error e p = Some ex \<longrightarrow> is_RequestException ex"
    and "\<forall>p ex partial. write_error e p = Some (ex, partial) \<longrightarrow> is_RequestException ex"
  shows "fst (download_loop e download_dir pdb_ids w) = None"
proof (induction pdb_ids arbitrary: w)
  case Nil
  then show ?case by simp
next
  case (Cons pdb_id rest)
  show ?case
  proof (cases "try_download e download_dir (entry_id_of pdb_id) (download_url (entry_id_of pdb_id)) w")
    case (Pair r w')
    show ?thesis
    proof (cases r)
      case None
      with Pair Cons.IH show ?thesis by (simp add: Let_def)
    next
      case (Some ex)
      with Pair have "is_RequestException ex"
        using try_download_class [OF assms] by simp
      with Pair Some Cons.IH show ?thesis by (simp add: Let_def)
    qed
  qed
qed

text \<open>
  Claim C5, amended. For an id whose file does not exist yet, when the request fails with
  a \<open>RequestException\<close> (raised by \<open>requests.get\<close>, or the \<open>HTTPError\<close> of
  \<open>raise_for_status\<close>), the exception is caught, one line is printed, no file is created
  or changed, and the loop goes on with the remaining ids; this holds whatever the rest of
  the environment does. The function as a whole returns without raising provided
  \<open>os.makedirs\<close> succeeds and every exception raised inside the \<open>try\<close> block, by the
  request, by \<open>open\<close> or by \<open>write\<close>, is a \<open>RequestException\<close>.
\<close>
theorem download_failures_caught:
  "(path_join download_dir (entry_id_of pdb_id @ ''.pdb'') \<notin> dom (files w) \<and>
    request_failure e (download_url (entry_id_of pdb_id)) = Some ex \<and>
    is_RequestException ex \<longrightarrow>
      download_loop e download_dir (pdb_id # rest) w =
        download_loop e download_dir rest
          (w\<lparr>printed := printed w @
             [''Failed to download '' @ entry_id_of pdb_id @ '': '' @ exn_str ex]\<rparr>)) \<and>
   (makedirs_error e download_dir = None \<and>
    (\<forall>u ex. requests_get e u = Inl ex \<longrightarrow> is_RequestException ex) \<and>
    (\<forall>p ex. open_error e p = Some ex \<longrightarrow> is_RequestException ex) \<and>
    (\<forall>p ex partial. write_error e p = Some (ex, partial) \<longrightarrow> is_RequestException ex) \<longrightarrow>
      fst (download_pdb_files e pdb_ids download_dir w0) = None)"
proof (intro conjI impI)
  assume h: "path_join download_dir (entry_id_of pdb_id @ ''.pdb'') \<notin> dom (files w) \<and>
             request_failure e (download_url (entry_id_of pdb_id)) = Some ex \<and>
             is_RequestException ex"
  then have "try_download e download_dir (entry_id_of pdb_id)
      (download_url (entry_id_of pdb_id)) w = (Some ex, w)"
    by (simp add: try_download_failure)
  with h show "download_loop e download_dir (pdb_id # rest) w =
      download_loop e download_dir rest
        (w\<lparr>printed := printed w @
           [''Failed to download '' @ entry_id_of pdb_id @ '': '' @ exn_str ex]\<rparr>)"
    by (simp add: Let_def print_line_def)
next
  assume g: "makedirs_error e download_dir = None \<and>
    (\<forall>u ex. requests_get e u = Inl ex \<longrightarrow> is_RequestException ex) \<and>
    (\<forall>p ex. open_error e p = Some ex \<longrightarrow> is_RequestException ex) \<and>
    (\<forall>p ex partial. write_error e p = Some (ex, partial) \<longrightarrow> is_RequestException ex)"
  then have "fst (download_loop e download_dir pdb_ids w0) = None"
    by (intro download_loop_returns) blast+
  with g show "fst (download_pdb_files e pdb_ids download_dir w0) = None"
    by (simp add: download_pdb_files_def)
qed

lemma demo_env_fields:
  "makedirs_error demo_env d = None"
  "open_error demo_env p = None"
  "write_error demo_env p = None"
  "requests_get demo_env ''https://files.rcsb.org/download/1abc.pdb'' =
     Inr \<lparr>status_code = 200, text_of = ''ATOM''\<rparr>"
  "requests_get demo_env ''https://files.rcsb.org/download/2bad.pdb'' =
     Inr \<lparr>status_code = 404, text_of = ''Not Found''\<rparr>"
  "requests_get demo_env ''https://files.rcsb.org/download/9zzz.pdb'' =
     Inl (RequestException ''ConnectionError'')"
  by (simp_all add: demo_env_def)

lemma demo_env_disk_full_fields:
  "makedirs_error demo_env_disk_full d = None"
  "open_error demo_env_disk_full p = None"
  "write_error demo_env_disk_full p = Some (OSError ''No space left on device'', [])"
  "requests_get demo_env_disk_full u = requests_get demo_env u"
  by (simp_all add: demo_env_disk_full_def demo_env_def)

lemma demo_env_class:
  "\<forall>u ex. requests_get demo_env u = Inl ex \<longrightarrow> is_RequestException ex"
  by (auto simp: demo_env_def)

lemma demo_ids:
  "entry_id_of ''2bad_1'' = ''2bad''" "entry_id_of ''1abc_1'' = ''1abc''"
  "entry_id_of ''9zzz_A'' = ''9zzz''"
  by (simp_all add: entry_id_of_def)

lemma demo_download:
  "download_pdb_files demo_env [''2bad_1'', ''1abc_1'', ''9zzz_A''] ''pdb_structures'' empty_world =
     (None, \<lparr>files = [''pdb_structures/1abc.pdb'' \<mapsto> ''ATOM''],
              printed = [''Failed to download 2bad: HTTPError'', ''Downloaded 1abc.pdb'',
                         ''Failed to download 9zzz: ConnectionError'']\<rparr>)"
  by (simp add: download_pdb_files_def demo_env_fields demo_ids Let_def path_join_def
      download_url_def try_download_def raise_for_status_def print_line_def empty_world_def)

text \<open>The step for a failed request is used over the full disk, where the function as a
  whole does raise; the whole function is used over the disk that can be written.\<close>

theorem download_failures_caught_witness:
  "path_join ''pdb_structures'' (entry_id_of ''2bad_1'' @ ''.pdb'') \<notin> dom (files empty_world) \<and>
   request_failure demo_env_disk_full (download_url (entry_id_of ''2bad_1'')) =
     Some (RequestException ''HTTPError'') \<and>
   is_RequestException (RequestException ''HTTPError'') \<and>
   download_loop demo_env_disk_full ''pdb_structures'' [''2bad_1'', ''1abc_1'', ''9zzz_A'']
       empty_world =
     download_loop demo_env_disk_full ''pdb_structures'' [''1abc_1'', ''9zzz_A'']
       (empty_world\<lparr>printed := printed empty_world @
          [''Failed to download '' @ entry_id_of ''2bad_1'' @ '': '' @
           exn_str (RequestException ''HTTPError'')]\<rparr>) \<and>
   makedirs_error demo_env ''pdb_structures'' = None \<and>
   fst (download_pdb_files demo_env [''2bad_1'', ''1abc_1'', ''9zzz_A''] ''pdb_structures''
          empty_world) = None \<and>
   snd (download_pdb_files demo_env [''2bad_1'', ''1abc_1'', ''9zzz_A''] ''pdb_structures''
          empty_world) =
     \<lparr>files = [''pdb_structures/1abc.pdb'' \<mapsto> ''ATOM''],
      printed = [''Failed to download 2bad: HTTPError'', ''Downloaded 1abc.pdb'',
                 ''Failed to download 9zzz: ConnectionError'']\<rparr>"
proof -
  have nf: "path_join ''pdb_structures'' (entry_id_of ''2bad_1'' @ ''.pdb'') \<notin> dom (files empty_world)"
    by (simp add: empty_world_def)
  have rf: "request_failure demo_env_disk_full (download_url (entry_id_of ''2bad_1'')) =
      Some (RequestException ''HTTPError'')"
    by (simp add: request_failure_def download_url_def demo_ids demo_env_disk_full_fields
        demo_env_fields raise_for_status_def)
  have cl: "is_RequestException (RequestException ''HTTPError'')" by simp
  from nf rf cl have local:
    "path_join ''pdb_structures'' (entry_id_of ''2bad_1'' @ ''.pdb'') \<notin> dom (files empty_world) \<and>
     request_failure demo_env_disk_full (download_url (entry_id_of ''2bad_1'')) =
       Some (RequestException ''HTTPError'') \<and>
     is_RequestException (RequestException ''HTTPError'')"
    by (intro conjI)
  have step: "download_loop demo_env_disk_full ''pdb_structures'' [''2bad_1'', ''1abc_1'', ''9zzz_A'']
       empty_world =
     download_loop demo_env_disk_full ''pdb_structures'' [''1abc_1'', ''9zzz_A'']
       (empty_world\<lparr>printed := printed empty_world @
          [''Failed to download '' @ entry_id_of ''2bad_1'' @ '': '' @
           exn_str (RequestException ''HTTPError'')]\<rparr>)"
    by (rule download_failures_caught [of "''pdb_structures''" "''2bad_1''" empty_world
          demo_env_disk_full "RequestException ''HTTPError''" "[''1abc_1'', ''9zzz_A'']",
          THEN conjunct1, THEN mp, OF local])
  have mk: "makedirs_error demo_env ''pdb_structures'' = None"
    by (simp add: demo_env_fields)
  have global: "makedirs_error demo_env ''pdb_structures'' = None \<and>
    (\<forall>u ex. requests_get demo_env u = Inl ex \<longrightarrow> is_RequestException ex) \<and>
    (\<forall>p ex. open_error demo_env p = Some ex \<longrightarrow> is_RequestException ex) \<and>
    (\<forall>p ex partial. write_error demo_env p = Some (ex, partial) \<longrightarrow> is_RequestException ex)"
    using demo_env_class by (simp add: demo_env_fields)
  have whole: "fst (download_pdb_files demo_env [''2bad_1'', ''1abc_1'', ''9zzz_A'']
      ''pdb_structures'' empty_world) = None"
    by (rule download_failures_caught [of "''pdb_structures''" "''2bad_1''" empty_world
          demo_env "RequestException ''HTTPError''" "[]" "[''2bad_1'', ''1abc_1'', ''9zzz_A'']"
          empty_world, THEN conjunct2, THEN mp, OF global])
  have result: "snd (download_pdb_files demo_env [''2bad_1'', ''1abc_1'', ''9zzz_A'']
      ''pdb_structures'' empty_world) =
     \<lparr>files = [''pdb_structures/1abc.pdb'' \<mapsto> ''ATOM''],
      printed = [''Failed to download 2bad: HTTPError'', ''Downloaded 1abc.pdb'',
                 ''Failed to download 9zzz: ConnectionError'']\<rparr>"
    by (simp add: demo_download)
  show ?thesis
    by (intro conjI nf rf cl step mk whole result)
qed

text \<open>As stated the claim fails: an \<open>OSError\<close> raised while the file is written is not
  a \<open>RequestException\<close>. It leaves the function, the ids that follow are never tried, and
  the file that \<open>open\<close> has created stays behind, empty, so that a later run skips the
  id.\<close>

theorem download_failures_caught_counterexample:
  "download_pdb_files demo_env_disk_full [''1abc_1'', ''9zzz_A''] ''pdb_structures'' empty_world =
     (Some (OSError ''No space left on device''),
      \<lparr>files = [''pdb_structures/1abc.pdb'' \<mapsto> []], printed = []\<rparr>)"
  by (simp add: download_pdb_files_def demo_env_disk_full_fields demo_env_fields demo_ids Let_def
      path_join_def download_url_def try_download_def raise_for_status_def empty_world_def)

subsection \<open>Splitting\<close>

lemma round53_error:
  "round53 N * 2 ^ 53 \<le> N * (2 ^ 53 + 1) \<and> N * (2 ^ 53 - 1) \<le> round53 N * 2 ^ 53"
proof (cases "bit_length N \<le> 53")
  case True
  then show ?thesis by (simp add: round53_def)
next
  case False
  define s where "s = bit_length N - 53"
  define q where "q = N div 2 ^ s"
  define r where "r = N mod 2 ^ s"
  define half :: nat where "half = 2 ^ (s - 1)"
  from False have s1: "1 \<le> s" and bl: "bit_length N = s + 53" by (simp_all add: s_def)
  then have Npos: "0 < N" using bit_length.simps [of N] by (cases "N = 0") auto
  from bit_length_bounds [OF Npos] bl have "2 ^ (s + 52) \<le> N" by (simp add: add.commute)
  moreover have "(2::nat) ^ (s + 52) = half * 2 ^ 53"
  proof -
    from s1 obtain t where "s = Suc t" by (cases s) auto
    then show ?thesis by (simp add: half_def power_add)
  qed
  ultimately have hN: "half * 2 ^ 53 \<le> N" by simp
  have two: "(2::nat) ^ s = 2 * half"
  proof -
    from s1 obtain t where "s = Suc t" by (cases s) auto
    then show ?thesis by (simp add: half_def)
  qed
  have N: "N = q * 2 ^ s + r" unfolding q_def r_def by (rule div_mult_mod_eq [symmetric])
  have "0 < half" by (simp add: half_def)
  then have rlt: "r < 2 * half" unfolding r_def two by simp
  have R: "round53 N = (if r > half \<or> (r = half \<and> odd q) then q + 1 else q) * 2 ^ s"
    using False by (simp add: round53_def Let_def s_def q_def r_def half_def)
  have up: "round53 N \<le> N + half"
    using R N rlt two by (auto simp: algebra_simps)
  have down: "N \<le> round53 N + half"
    using R N rlt two by (auto simp: algebra_simps)
  have "round53 N * 2 ^ 53 \<le> (N + half) * 2 ^ 53"
    using up by simp
  also have "\<dots> = N * 2 ^ 53 + half * 2 ^ 53" by (simp add: algebra_simps)
  also have "\<dots> \<le> N * 2 ^ 53 + N" using hN by simp
  finally have A: "round53 N * 2 ^ 53 \<le> N * (2 ^ 53 + 1)" by (simp add: algebra_simps)
  have "N * 2 ^ 53 \<le> (round53 N + half) * 2 ^ 53"
    using down by simp
  also have "\<dots> = round53 N * 2 ^ 53 + half * 2 ^ 53" by (simp add: algebra_simps)
  also have "\<dots> \<le> round53 N * 2 ^ 53 + N" using hN by simp
  finally have "N * 2 ^ 53 \<le> round53 N * 2 ^ 53 + N" .
  then have B: "N * (2 ^ 53 - 1) \<le> round53 N * 2 ^ 53"
    by (simp add: algebra_simps)
  from A B show ?thesis by simp
qed

lemma split_points_ordered:
  "train_end_of n \<le> val_end_of n \<and> val_end_of n \<le> n"
proof -
  define x where "x = round53 n"
  define A where "A = round53 (double_0_7 * x)"
  define B where "B = round53 (double_0_85 * x)"
  have a: "A * 2 ^ 53 \<le> double_0_7 * x * (2 ^ 53 + 1)"
    unfolding A_def using round53_error [of "double_0_7 * x"] by simp
  have b1: "double_0_85 * x * (2 ^ 53 - 1) \<le> B * 2 ^ 53"
    unfolding B_def using round53_error [of "double_0_85 * x"] by simp
  have b2: "B * 2 ^ 53 \<le> double_0_85 * x * (2 ^ 53 + 1)"
    unfolding B_def using round53_error [of "double_0_85 * x"] by simp
  have xn: "x * 2 ^ 53 \<le> n * (2 ^ 53 + 1)"
    unfolding x_def using round53_error [of n] by simp
  have "A * 2 ^ 53 \<le> B * 2 ^ 53"
    using a b1 by (simp add: double_0_7_def double_0_85_def)
  then have "A \<le> B" by simp
  then have ab: "A div 2 ^ 53 \<le> B div 2 ^ 53" by (rule div_le_mono)
  have "B * 2 ^ 53 * 2 ^ 53 \<le> double_0_85 * (2 ^ 53 + 1) * (x * 2 ^ 53)"
    using b2 by (simp add: algebra_simps)
  also have "\<dots> \<le> double_0_85 * (2 ^ 53 + 1) * (n * (2 ^ 53 + 1))"
    using xn by (rule mult_left_mono) simp
  also have "\<dots> \<le> n * 2 ^ 53 * 2 ^ 53 * 2 ^ 53"
    by (simp add: double_0_85_def)
  finally have "B \<le> n * 2 ^ 53" by simp
  then have "B div 2 ^ 53 \<le> n * 2 ^ 53 div 2 ^ 53" by (rule div_le_mono)
  then have bn: "B div 2 ^ 53 \<le> n" by simp
  show ?thesis
    using ab bn by (simp add: train_end_of_def val_end_of_def int_float_mul_def A_def B_def x_def)
qed

lemma select_by_map:
  assumes "\<forall>i \<in> set idxs. i < length xs"
  shows "select_by xs idxs = Inr (map (\<lambda>i. xs ! i) idxs)"
  using assms by (induction idxs) auto

lemma slices_partition:
  assumes "a \<le> b"
  shows "slice_to a xs @ slice_between a b xs @ slice_from b xs = xs"
proof -
  have "take a xs = take a (take b xs)" using assms by (simp add: min_def)
  then have "take a xs @ drop a (take b xs) = take b xs"
    by (metis append_take_drop_id)
  then have "(take a xs @ drop a (take b xs)) @ drop b xs = xs"
    by simp
  then show ?thesis
    by (simp add: slice_to_def slice_between_def slice_from_def)
qed

lemma slices_length:
  assumes "a \<le> b" "b \<le> length xs"
  shows "length (slice_to a xs) = a" "length (slice_between a b xs) = b - a"
    "length (slice_from b xs) = length xs - b"
  using assms by (simp_all add: slice_to_def slice_between_def slice_from_def)

lemma slices_subset:
  "set (slice_to a xs) \<subseteq> set xs" "set (slice_between a b xs) \<subseteq> set xs"
  "set (slice_from b xs) \<subseteq> set xs"
  by (auto simp: slice_to_def slice_between_def slice_from_def dest: in_set_takeD in_set_dropD)

lemmas split_point_eval =
  train_end_of_def val_end_of_def int_float_mul_def double_0_7_def double_0_85_def
  round53_def Let_def bit_length_numeral bit_length_small

lemma all_less_numeral:
  "(\<forall>n<numeral k. P n) = (P (pred_numeral k) \<and> (\<forall>n<pred_numeral k. P n))"
  by (simp only: numeral_eq_Suc All_less_Suc)

lemma split_points_agree:
  "\<forall>n<90. train_end_of n = 7 * n div 10 \<and> val_end_of n = 17 * n div 20"
  apply (simp only: all_less_numeral pred_numeral_simps BitM.simps)
  apply (simp add: split_point_eval)
  done

lemma split_points_small:
  assumes "n < 90"
  shows "train_end_of n = 7 * n div 10" and "val_end_of n = 17 * n div 20"
  using assms split_points_agree by blast+

lemma floor_fractions:
  "nat \<lfloor>0.7 * real n\<rfloor> = 7 * n div 10" "nat \<lfloor>0.85 * real n\<rfloor> = 17 * n div 20"
proof -
  have "0.7 * real n = real (7 * n) / real 10" by simp
  then have "\<lfloor>0.7 * real n\<rfloor> = int (7 * n div 10)"
    by (simp only: floor_divide_of_nat_eq)
  then show "nat \<lfloor>0.7 * real n\<rfloor> = 7 * n div 10" by simp
  have "0.85 * real n = real (17 * n) / real 20" by simp
  then have "\<lfloor>0.85 * real n\<rfloor> = int (17 * n div 20)"
    by (simp only: floor_divide_of_nat_eq)
  then show "nat \<lfloor>0.85 * real n\<rfloor> = 17 * n div 20" by simp
qed

lemma shuffled_range:
  assumes "mset indices = mset [0..<n]"
  shows "distinct indices" "set indices = {0..<n}" "length indices = n"
proof -
  from assms show "distinct indices"
    by (metis distinct_upt mset_eq_imp_distinct_iff)
  from assms show "set indices = {0..<n}"
    by (metis mset_eq_setD set_upt)
  from assms show "length indices = n"
    by (metis length_upt mset_eq_length minus_nat.diff_0)
qed

lemma split_data_result:
  assumes "length contact_maps = length sequences"
    and "mset (shuffle [0..<length sequences]) = mset [0..<length sequences]"
  shows "split_data shuffle sequences contact_maps =
     Inr \<lparr>train_indices = slice_to (train_end_of (length sequences)) (shuffle [0..<length sequences]),
          val_indices = slice_between (train_end_of (length sequences)) (val_end_of (length sequences))
                          (shuffle [0..<length sequences]),
          test_indices = slice_from (val_end_of (length sequences)) (shuffle [0..<length sequences]),
          train_sequences = map (\<lambda>i. sequences ! i)
             (slice_to (train_end_of (length sequences)) (shuffle [0..<length sequences])),
          val_sequences = map (\<lambda>i. sequences ! i)
             (slice_between (train_end_of (length sequences)) (val_end_of (length sequences))
                (shuffle [0..<length sequences])),
          test_sequences = map (\<lambda>i. sequences ! i)
             (slice_from (val_end_of (length sequences)) (shuffle [0..<length sequences])),
          train_contact_maps = map (\<lambda>i. contact_maps ! i)
             (slice_to (train_end_of (length sequences)) (shuffle [0..<length sequences])),
          val_contact_maps = map (\<lambda>i. contact_maps ! i)
             (slice_between (train_end_of (length sequences)) (val_end_of (length sequences))
                (shuffle [0..<length sequences])),
          test_contact_maps = map (\<lambda>i. contact_maps ! i)
             (slice_from (val_end_of (length sequences)) (shuffle [0..<length sequences]))\<rparr>"
proof -
  define n where "n = length sequences"
  define indices where "indices = shuffle [0..<n]"
  define tr where "tr = slice_to (train_end_of n) indices"
  define va where "va = slice_between (train_end_of n) (val_end_of n) indices"
  define te where "te = slice_from (val_end_of n) indices"
  from assms(2) have perm: "mset indices = mset [0..<n]"
    by (simp add: indices_def n_def)
  note rng = shuffled_range [OF perm]
  have sub: "set tr \<subseteq> {0..<n}" "set va \<subseteq> {0..<n}" "set te \<subseteq> {0..<n}"
    using slices_subset(1) [of "train_end_of n" indices]
      slices_subset(2) [of "train_end_of n" "val_end_of n" indices]
      slices_subset(3) [of "val_end_of n" indices] rng(2)
    by (simp_all add: tr_def va_def te_def)
  have in_seq: "\<forall>i \<in> set tr. i < length sequences" "\<forall>i \<in> set va. i < length sequences"
    "\<forall>i \<in> set te. i < length sequences"
    using sub by (auto simp: n_def)
  have in_cm: "\<forall>i \<in> set tr. i < length contact_maps" "\<forall>i \<in> set va. i < length contact_maps"
    "\<forall>i \<in> set te. i < length contact_maps"
    using in_seq assms(1) by simp_all
  have sel:
    "select_by sequences tr = Inr (map (\<lambda>i. sequences ! i) tr)"
    "select_by sequences va = Inr (map (\<lambda>i. sequences ! i) va)"
    "select_by sequences te = Inr (map (\<lambda>i. sequences ! i) te)"
    "select_by contact_maps tr = Inr (map (\<lambda>i. contact_maps ! i) tr)"
    "select_by contact_maps va = Inr (map (\<lambda>i. contact_maps ! i) va)"
    "select_by contact_maps te = Inr (map (\<lambda>i. contact_maps ! i) te)"
    by (simp_all only: select_by_map [OF in_seq(1)] select_by_map [OF in_seq(2)]
        select_by_map [OF in_seq(3)] select_by_map [OF in_cm(1)] select_by_map [OF in_cm(2)]
        select_by_map [OF in_cm(3)])
  show ?thesis
    unfolding split_data_def Let_def
    using sel [unfolded tr_def va_def te_def indices_def n_def]
    by simp
qed

text \<open>
  Claim C6, amended. Whenever the shuffle rearranges the index list, the cell returns a
  split whose three index lists, put end to end, are the shuffled list: they are pairwise
  disjoint and their union is \<open>{0, ..., n-1}\<close>. Their sizes are \<open>int(0.7 * n)\<close>,
  \<open>int(0.85 * n) - int(0.7 * n)\<close> and \<open>n - int(0.85 * n)\<close> with the products taken in
  double precision; for \<open>n < 90\<close> these are \<open>floor(0.7 * n)\<close> and \<open>floor(0.85 * n)\<close>.
  The sequence and contact-map lists are selected by the same indices in the same order.
\<close>
theorem split_is_partition:
  assumes "length contact_maps = length sequences"
    and "mset (shuffle [0..<length sequences]) = mset [0..<length sequences]"
  shows "\<exists>sp. split_data shuffle sequences contact_maps = Inr sp \<and>
           train_indices sp @ val_indices sp @ test_indices sp = shuffle [0..<length sequences] \<and>
           distinct (train_indices sp @ val_indices sp @ test_indices sp) \<and>
           set (train_indices sp) \<union> set (val_indices sp) \<union> set (test_indices sp) =
             {0..<length sequences} \<and>
           length (train_indices sp) = train_end_of (length sequences) \<and>
           length (val_indices sp) =
             val_end_of (length sequences) - train_end_of (length sequences) \<and>
           length (test_indices sp) = length sequences - val_end_of (length sequences) \<and>
           train_sequences sp = map (\<lambda>i. sequences ! i) (train_indices sp) \<and>
           val_sequences sp = map (\<lambda>i. sequences ! i) (val_indices sp) \<and>
           test_sequences sp = map (\<lambda>i. sequences ! i) (test_indices sp) \<and>
           train_contact_maps sp = map (\<lambda>i. contact_maps ! i) (train_indices sp) \<and>
           val_contact_maps sp = map (\<lambda>i. contact_maps ! i) (val_indices sp) \<and>
           test_contact_maps sp = map (\<lambda>i. contact_maps ! i) (test_indices sp) \<and>
           (length sequences < 90 \<longrightarrow>
              train_end_of (length sequences) = nat \<lfloor>0.7 * real (length sequences)\<rfloor> \<and>
              val_end_of (length sequences) = nat \<lfloor>0.85 * real (length sequences)\<rfloor>)"
proof -
  define n where "n = length sequences"
  define indices where "indices = shuffle [0..<n]"
  define a where "a = train_end_of n"
  define b where "b = val_end_of n"
  define tr where "tr = slice_to a indices"
  define va where "va = slice_between a b indices"
  define te where "te = slice_from b indices"
  from assms(2) have perm: "mset indices = mset [0..<n]"
    by (simp add: indices_def n_def)
  note rng = shuffled_range [OF perm]
  from split_points_ordered [of n] have ab: "a \<le> b" and bn: "b \<le> n"
    by (simp_all add: a_def b_def)
  have cat: "tr @ va @ te = indices"
    unfolding tr_def va_def te_def by (rule slices_partition [OF ab])
  have lens: "length tr = a" "length va = b - a" "length te = n - b"
    using slices_length [of a b indices] ab bn rng(3) by (simp_all add: tr_def va_def te_def)
  define sp where "sp =
     \<lparr>train_indices = tr, val_indices = va, test_indices = te,
      train_sequences = map (\<lambda>i. sequences ! i) tr,
      val_sequences = map (\<lambda>i. sequences ! i) va,
      test_sequences = map (\<lambda>i. sequences ! i) te,
      train_contact_maps = map (\<lambda>i. contact_maps ! i) tr,
      val_contact_maps = map (\<lambda>i. contact_maps ! i) va,
      test_contact_maps = map (\<lambda>i. contact_maps ! i) te\<rparr>"
  have res: "split_data shuffle sequences contact_maps = Inr sp"
    using split_data_result [of contact_maps sequences shuffle, OF assms]
    by (simp add: sp_def tr_def va_def te_def a_def b_def indices_def n_def)
  have un: "set tr \<union> set va \<union> set te = {0..<n}"
  proof -
    have "set (tr @ va @ te) = set indices" by (simp only: cat)
    then show ?thesis using rng(2) by (simp add: Un_assoc)
  qed
  have small: "n < 90 \<longrightarrow> a = nat \<lfloor>0.7 * real n\<rfloor> \<and> b = nat \<lfloor>0.85 * real n\<rfloor>"
  proof (intro impI conjI)
    assume "n < 90"
    then show "a = nat \<lfloor>0.7 * real n\<rfloor>"
      unfolding a_def floor_fractions by (rule split_points_small(1))
  next
    assume "n < 90"
    then show "b = nat \<lfloor>0.85 * real n\<rfloor>"
      unfolding b_def floor_fractions by (rule split_points_small(2))
  qed
  have "split_data shuffle sequences contact_maps = Inr sp \<and>
        train_indices sp @ val_indices sp @ test_indices sp = shuffle [0..<length sequences] \<and>
        distinct (train_indices sp @ val_indices sp @ test_indices sp) \<and>
        set (train_indices sp) \<union> set (val_indices sp) \<union> set (test_indices sp) =
          {0..<length sequences} \<and>
        length (train_indices sp) = train_end_of (length sequences) \<and>
        length (val_indices sp) =
          val_end_of (length sequences) - train_end_of (length sequences) \<and>
        length (test_indices sp) = length sequences - val_end_of (length sequences) \<and>
        train_sequences sp = map (\<lambda>i. sequences ! i) (train_indices sp) \<and>
        val_sequences sp = map (\<lambda>i. sequences ! i) (val_indices sp) \<and>
        test_sequences sp = map (\<lambda>i. sequences ! i) (test_indices sp) \<and>
        train_contact_maps sp = map (\<lambda>i. contact_maps ! i) (train_indices sp) \<and>
        val_contact_maps sp = map (\<lambda>i. contact_maps ! i) (val_indices sp) \<and>
        test_contact_maps sp = map (\<lambda>i. contact_maps ! i) (test_indices sp) \<and>
        (length sequences < 90 \<longrightarrow>
           train_end_of (length sequences) = nat \<lfloor>0.7 * real (length sequences)\<rfloor> \<and>
           val_end_of (length sequences) = nat \<lfloor>0.85 * real (length sequences)\<rfloor>)"
  proof (intro conjI)
    show "split_data shuffle sequences contact_maps = Inr sp" by (rule res)
    show "train_indices sp @ val_indices sp @ test_indices sp = shuffle [0..<length sequences]"
      using cat by (simp add: sp_def indices_def n_def)
    show "distinct (train_indices sp @ val_indices sp @ test_indices sp)"
      using cat rng(1) by (simp only: sp_def split.simps)
    show "set (train_indices sp) \<union> set (val_indices sp) \<union> set (test_indices sp) =
        {0..<length sequences}"
      using un by (simp add: sp_def n_def)
    show "length (train_indices sp) = train_end_of (length sequences)"
      using lens(1) by (simp add: sp_def a_def n_def)
    show "length (val_indices sp) = val_end_of (length sequences) - train_end_of (length sequences)"
      using lens(2) by (simp add: sp_def a_def b_def n_def)
    show "length (test_indices sp) = length sequences - val_end_of (length sequences)"
      using lens(3) by (simp add: sp_def b_def n_def)
    show "length sequences < 90 \<longrightarrow>
        train_end_of (length sequences) = nat \<lfloor>0.7 * real (length sequences)\<rfloor> \<and>
        val_end_of (length sequences) = nat \<lfloor>0.85 * real (length sequences)\<rfloor>"
      using small unfolding a_def b_def n_def .
  qed (simp_all add: sp_def)
  then show ?thesis by (rule exI)
qed

lemma demo_split_points: "train_end_of 4 = 2" "val_end_of 4 = 3"
  by (simp_all add: split_point_eval)

theorem split_is_partition_witness:
  "length [[[1]], [[1]], [[1]], [[1::real]]] = length [''AX'', ''G'', ''AXG'', ''K''] \<and>
   mset (rev [0..<length [''AX'', ''G'', ''AXG'', ''K'']]) =
     mset [0..<length [''AX'', ''G'', ''AXG'', ''K'']] \<and>
   (\<exists>sp. split_data rev [''AX'', ''G'', ''AXG'', ''K''] [[[1]], [[1]], [[1]], [[1]]] = Inr sp \<and>
      train_indices sp @ val_indices sp @ test_indices sp = [3, 2, 1, 0] \<and>
      length (train_indices sp) = 2 \<and> length (val_indices sp) = 1 \<and>
      length (test_indices sp) = 1 \<and>
      train_sequences sp = map (\<lambda>i. [''AX'', ''G'', ''AXG'', ''K''] ! i) (train_indices sp))"
proof -
  have h1: "length [[[1]], [[1]], [[1]], [[1::real]]] = length [''AX'', ''G'', ''AXG'', ''K'']"
    by simp
  have h2: "mset (rev [0..<length [''AX'', ''G'', ''AXG'', ''K'']]) =
     mset [0..<length [''AX'', ''G'', ''AXG'', ''K'']]"
    by simp
  have r: "rev [0..<length [''AX'', ''G'', ''AXG'', ''K'']] = [3, 2, 1, 0]"
    by (simp add: upt_conv_Cons)
  from split_is_partition [of "[[[1]], [[1]], [[1]], [[1::real]]]" "[''AX'', ''G'', ''AXG'', ''K'']" rev,
      OF h1 h2]
  obtain sp where sp: "split_data rev [''AX'', ''G'', ''AXG'', ''K''] [[[1]], [[1]], [[1]], [[1]]] = Inr sp"
    "train_indices sp @ val_indices sp @ test_indices sp = rev [0..<length [''AX'', ''G'', ''AXG'', ''K'']]"
    "length (train_indices sp) = train_end_of (length [''AX'', ''G'', ''AXG'', ''K''])"
    "length (val_indices sp) = val_end_of (length [''AX'', ''G'', ''AXG'', ''K'']) -
       train_end_of (length [''AX'', ''G'', ''AXG'', ''K''])"
    "length (test_indices sp) = length [''AX'', ''G'', ''AXG'', ''K''] -
       val_end_of (length [''AX'', ''G'', ''AXG'', ''K''])"
    "train_sequences sp = map (\<lambda>i. [''AX'', ''G'', ''AXG'', ''K''] ! i) (train_indices sp)"
    by blast
  have len: "length [''AX'', ''G'', ''AXG'', ''K''] = 4" by simp
  from sp(2) r have c: "train_indices sp @ val_indices sp @ test_indices sp = [3, 2, 1, 0]"
    by simp
  from sp(3,4,5) have l: "length (train_indices sp) = 2" "length (val_indices sp) = 1"
    "length (test_indices sp) = 1"
    unfolding len demo_split_points by simp_all
  from sp(1) c l sp(6) have "\<exists>sp. split_data rev [''AX'', ''G'', ''AXG'', ''K''] [[[1]], [[1]], [[1]], [[1]]] = Inr sp \<and>
      train_indices sp @ val_indices sp @ test_indices sp = [3, 2, 1, 0] \<and>
      length (train_indices sp) = 2 \<and> length (val_indices sp) = 1 \<and>
      length (test_indices sp) = 1 \<and>
      train_sequences sp = map (\<lambda>i. [''AX'', ''G'', ''AXG'', ''K''] ! i) (train_indices sp)"
    by blast
  with h1 h2 show ?thesis by blast
qed

text \<open>For 90 sequences the double-precision product \<open>0.7 * 90\<close> is
  \<open>62.99999999999999\<close>, so the training set has 62 elements where
  \<open>floor(0.7 * 90)\<close> is 63, and the validation set has 14 where the claim's formula
  gives 13.\<close>

lemma split_points_90: "train_end_of 90 = 62" "val_end_of 90 = 76"
  by (simp_all add: split_point_eval)

theorem split_is_partition_counterexample:
  "map_sum id (\<lambda>sp. (length (train_indices sp), length (val_indices sp), length (test_indices sp)))
     (split_data rev (replicate 90 ''A'') (replicate 90 [[1]])) = Inr (62, 14, 14) \<and>
   (nat \<lfloor>0.7 * real (90::nat)\<rfloor>,
    nat \<lfloor>0.85 * real (90::nat)\<rfloor> - nat \<lfloor>0.7 * real (90::nat)\<rfloor>,
    90 - nat \<lfloor>0.85 * real (90::nat)\<rfloor>) = (63, 13, 14::nat)"
proof -
  have h1: "length (replicate 90 [[1::real]]) = length (replicate 90 ''A'')" by simp
  have h2: "mset (rev [0..<length (replicate 90 ''A'')]) = mset [0..<length (replicate 90 ''A'')]"
    by simp
  have "map_sum id (\<lambda>sp. (length (train_indices sp), length (val_indices sp), length (test_indices sp)))
     (split_data rev (replicate 90 ''A'') (replicate 90 [[1]])) = Inr (62, 14, 14)"
    unfolding split_data_result [of "replicate 90 [[1::real]]" "replicate 90 ''A''" rev, OF h1 h2]
    by (simp add: split_points_90 slice_to_def slice_between_def slice_from_def)
  moreover have "(nat \<lfloor>0.7 * real (90::nat)\<rfloor>,
    nat \<lfloor>0.85 * real (90::nat)\<rfloor> - nat \<lfloor>0.7 * real (90::nat)\<rfloor>,
    90 - nat \<lfloor>0.85 * real (90::nat)\<rfloor>) = (63, 13, 14::nat)"
    unfolding floor_fractions by simp
  ultimately show ?thesis by (rule conjI)
qed

subsection \<open>The prediction head\<close>

lemma pairwise_concat_ok:
  assumes "shape embedding = [B, L, D]"
  shows "\<exists>P. pairwise_concat embedding = Inr P \<and> shape P = [B, L, L, D + D] \<and>
           (\<forall>b i j c. elem P [b, i, j, c] =
              (if c < D then elem embedding [b mod B, i mod L, c mod D]
               else elem embedding [b mod B, j mod L, (c - D) mod D]))"
  using assms
  by (simp add: pairwise_concat_def unsqueeze_def repeat_def cat_last_def Let_def)

lemma permute_0312:
  assumes "shape P = [B, L, M, C]"
  shows "shape (permute [0, 3, 1, 2] P) = [B, C, L, M]"
    and "elem (permute [0, 3, 1, 2] P) [b, c, i, j] = elem P [b, i, j, c]"
  using assms by (simp_all add: permute_def upt_conv_Cons)

lemma conv2d_apply_ok:
  assumes "shape x = [B, C, H, W]" "C = in_channels cv"
    and "kernel_size cv \<le> H + 2 * padding cv" "kernel_size cv \<le> W + 2 * padding cv"
  shows "\<exists>y. conv2d_apply ks cv x = Inr y \<and>
           shape y = [B, out_channels cv, H + 2 * padding cv - kernel_size cv + 1,
                      W + 2 * padding cv - kernel_size cv + 1] \<and>
           (\<forall>b oc u v. elem y [b, oc, u, v] =
              multiply_accumulate ks (bias cv oc)
                (concat (map (\<lambda>c. concat (map (\<lambda>ky. map (\<lambda>kx.
                   (weight cv oc c ky kx, padded (padding cv) H W x b c (u + ky) (v + kx)))
                   [0..<kernel_size cv]) [0..<kernel_size cv])) [0..<C])))"
  using assms by (simp add: conv2d_apply_def)

lemma window_cong:
  assumes "\<And>c ky kx. c < C \<Longrightarrow> f c ky kx = g c ky kx"
  shows "concat (map (\<lambda>c. concat (map (\<lambda>ky. map (\<lambda>kx. f c ky kx) [0..<k]) [0..<k])) [0..<C]) =
         concat (map (\<lambda>c. concat (map (\<lambda>ky. map (\<lambda>kx. g c ky kx) [0..<k]) [0..<k])) [0..<C])"
proof -
  have "f c ky = g c ky" if "c < C" for c ky
    by (rule ext) (rule assms [OF that])
  then show ?thesis
    by (intro arg_cong [where f = concat]) simp
qed

lemma padded_one:
  "padded 1 L L x b c u v =
     (if 1 \<le> u \<and> u \<le> L \<and> 1 \<le> v \<and> v \<le> L then elem x [b, c, u - 1, v - 1] else 0)"
  by (auto simp: padded_def)

lemma model_fields:
  "in_channels (conv1 (ContactPredictionModel D w1 b1 w2 b2)) = D * 2"
  "out_channels (conv1 (ContactPredictionModel D w1 b1 w2 b2)) = 64"
  "kernel_size (conv1 (ContactPredictionModel D w1 b1 w2 b2)) = 3"
  "padding (conv1 (ContactPredictionModel D w1 b1 w2 b2)) = 1"
  "weight (conv1 (ContactPredictionModel D w1 b1 w2 b2)) = w1"
  "bias (conv1 (ContactPredictionModel D w1 b1 w2 b2)) = b1"
  "in_channels (conv2 (ContactPredictionModel D w1 b1 w2 b2)) = 64"
  "out_channels (conv2 (ContactPredictionModel D w1 b1 w2 b2)) = 1"
  "kernel_size (conv2 (ContactPredictionModel D w1 b1 w2 b2)) = 3"
  "padding (conv2 (ContactPredictionModel D w1 b1 w2 b2)) = 1"
  "weight (conv2 (ContactPredictionModel D w1 b1 w2 b2)) = w2"
  "bias (conv2 (ContactPredictionModel D w1 b1 w2 b2)) = b2"
  by (simp_all add: ContactPredictionModel_def)

text \<open>
  Claim C3, amended. For an embedding of shape \<open>(batch, L, D)\<close> with \<open>L \<ge> 1\<close> and
  \<open>D\<close> the model's embedding dimension, the pairwise tensor has shape
  \<open>(batch, L, L, 2D)\<close> and its channel vector at \<open>(i, j)\<close> is row \<open>i\<close> followed by
  row \<open>j\<close>; \<open>forward\<close> returns a tensor of shape \<open>(batch, L, L)\<close> whose entries are
  those of the two 3-by-3 convolutions (\<open>2D\<close> to 64 channels, then 64 to 1, padding 1)
  with a ReLU between them and a sigmoid after, whatever kernels the library computes with.
\<close>
theorem forward_head:
  assumes "shape embedding = [B, L, D]" and "0 < L"
  shows "(\<exists>P. pairwise_concat embedding = Inr P \<and> shape P = [B, L, L, 2 * D] \<and>
            (\<forall>b < B. \<forall>i < L. \<forall>j < L. \<forall>c < 2 * D.
               elem P [b, i, j, c] =
                 (if c < D then elem embedding [b, i, c] else elem embedding [b, j, c - D]))) \<and>
         (\<exists>out. forward ks (ContactPredictionModel D w1 b1 w2 b2) embedding = Inr out \<and>
            shape out = [B, L, L] \<and>
            (\<forall>b < B. \<forall>i < L. \<forall>j < L.
               elem out [b, i, j] =
                 head_spec ks (ContactPredictionModel D w1 b1 w2 b2) embedding L D b i j))"
proof -
  let ?m = "ContactPredictionModel D w1 b1 w2 b2"
  from pairwise_concat_ok [OF assms(1)]
  obtain P where P: "pairwise_concat embedding = Inr P" "shape P = [B, L, L, D + D]"
    and Pe: "\<And>b i j c. elem P [b, i, j, c] =
              (if c < D then elem embedding [b mod B, i mod L, c mod D]
               else elem embedding [b mod B, j mod L, (c - D) mod D])"
    by blast
  have Pin: "elem P [b, i, j, c] =
      (if c < D then elem embedding [b, i, c] else elem embedding [b, j, c - D])"
    if "b < B" "i < L" "j < L" "c < D + D" for b i j c
    using that by (simp add: Pe)
  define X1 where "X1 = permute [0, 3, 1, 2] P"
  have X1s: "shape X1 = [B, D + D, L, L]"
    unfolding X1_def by (rule permute_0312(1) [OF P(2)])
  have X1e: "elem X1 [b, c, u, v] = pair_feature embedding D b c u v"
    if "b < B" "c < D + D" "u < L" "v < L" for b c u v
    unfolding X1_def permute_0312(2) [OF P(2)] using that by (simp add: Pin pair_feature_def)
  have pad1: "padded 1 L L X1 b c u v =
      (if 1 \<le> u \<and> u \<le> L \<and> 1 \<le> v \<and> v \<le> L
       then pair_feature embedding D b c (u - 1) (v - 1) else 0)"
    if "b < B" "c < D + D" for b c u v
    unfolding padded_one using that by (auto intro!: X1e)
  have k: "3 \<le> L + 2 * 1" using assms(2) by simp
  have c1: "D + D = D * 2" by simp
  from conv2d_apply_ok [of X1 B "D + D" L L "conv1 ?m" ks, unfolded model_fields, OF X1s c1 k k]
  obtain Y1 where Y1: "conv2d_apply ks (conv1 ?m) X1 = Inr Y1"
    and Y1s': "shape Y1 = [B, 64, L + 2 * 1 - 3 + 1, L + 2 * 1 - 3 + 1]"
    and Y1f: "\<And>b oc u v. elem Y1 [b, oc, u, v] =
        multiply_accumulate ks (b1 oc)
          (concat (map (\<lambda>c. concat (map (\<lambda>ky. map (\<lambda>kx.
             (w1 oc c ky kx, padded 1 L L X1 b c (u + ky) (v + kx)))
             [0..<3]) [0..<3])) [0..<D + D]))"
    by blast
  from Y1s' assms(2) have Y1s: "shape Y1 = [B, 64, L, L]" by simp
  have Y1e: "elem Y1 [b, oc, u, v] =
      conv3x3 ks w1 b1 (2 * D) L (pair_feature embedding D b) oc u v" if "b < B" for b oc u v
  proof -
    have "concat (map (\<lambda>c. concat (map (\<lambda>ky. map (\<lambda>kx.
            (w1 oc c ky kx, padded 1 L L X1 b c (u + ky) (v + kx)))
            [0..<3]) [0..<3])) [0..<D + D]) =
          concat (map (\<lambda>c. concat (map (\<lambda>ky. map (\<lambda>kx.
            (w1 oc c ky kx,
             if 1 \<le> u + ky \<and> u + ky \<le> L \<and> 1 \<le> v + kx \<and> v + kx \<le> L
             then pair_feature embedding D b c (u + ky - 1) (v + kx - 1) else 0))
            [0..<3]) [0..<3])) [0..<D + D])"
      by (rule window_cong) (simp only: pad1 [OF that])
    moreover have "2 * D = D + D" by simp
    ultimately show ?thesis
      unfolding Y1f conv3x3_def by (simp only:)
  qed
  define X2 where "X2 = relu Y1"
  have X2s: "shape X2 = [B, 64, L, L]"
    by (simp add: X2_def relu_def Y1s)
  have pad2: "padded 1 L L X2 b c u v =
      (if 1 \<le> u \<and> u \<le> L \<and> 1 \<le> v \<and> v \<le> L
       then max 0 (conv3x3 ks w1 b1 (2 * D) L (pair_feature embedding D b) c (u - 1) (v - 1))
       else 0)"
    if "b < B" for b c u v
    unfolding padded_one using that by (simp add: X2_def relu_def Y1e)
  from conv2d_apply_ok [of X2 B 64 L L "conv2 ?m" ks, unfolded model_fields, OF X2s refl k k]
  obtain Y2 where Y2: "conv2d_apply ks (conv2 ?m) X2 = Inr Y2"
    and Y2s': "shape Y2 = [B, 1, L + 2 * 1 - 3 + 1, L + 2 * 1 - 3 + 1]"
    and Y2f: "\<And>b oc u v. elem Y2 [b, oc, u, v] =
        multiply_accumulate ks (b2 oc)
          (concat (map (\<lambda>c. concat (map (\<lambda>ky. map (\<lambda>kx.
             (w2 oc c ky kx, padded 1 L L X2 b c (u + ky) (v + kx)))
             [0..<3]) [0..<3])) [0..<64]))"
    by blast
  from Y2s' assms(2) have Y2s: "shape Y2 = [B, 1, L, L]" by simp
  have Y2e: "elem Y2 [b, oc, u, v] =
      conv3x3 ks w2 b2 64 L
        (\<lambda>c y x. max 0 (conv3x3 ks w1 b1 (2 * D) L (pair_feature embedding D b) c y x)) oc u v"
    if "b < B" for b oc u v
    unfolding Y2f conv3x3_def [of ks w2] by (simp only: pad2 [OF that])
  define out where "out = squeeze 1 (sigmoid ks Y2)"
  have outs: "shape out = [B, L, L]"
    by (simp add: out_def squeeze_def sigmoid_def Y2s)
  have oute: "elem out [b, i, j] = logistic ks (elem Y2 [b, 0, i, j])" for b i j
    by (simp add: out_def squeeze_def sigmoid_def Y2s)
  have fw: "forward ks ?m embedding = Inr out"
    by (simp only: forward_def bind_exn_def P(1) sum.case Let_def X1_def [symmetric] Y1
        X2_def [symmetric] Y2 out_def)
  have spec: "elem out [b, i, j] = head_spec ks ?m embedding L D b i j" if "b < B" for b i j
    unfolding oute Y2e [OF that] head_spec_def model_fields ..
  have first: "\<exists>P. pairwise_concat embedding = Inr P \<and> shape P = [B, L, L, 2 * D] \<and>
            (\<forall>b < B. \<forall>i < L. \<forall>j < L. \<forall>c < 2 * D.
               elem P [b, i, j, c] =
                 (if c < D then elem embedding [b, i, c] else elem embedding [b, j, c - D]))"
    using P Pin by (intro exI [of _ P]) simp
  have second: "\<exists>out. forward ks ?m embedding = Inr out \<and> shape out = [B, L, L] \<and>
            (\<forall>b < B. \<forall>i < L. \<forall>j < L.
               elem out [b, i, j] = head_spec ks ?m embedding L D b i j)"
  proof (intro exI [of _ out] conjI allI impI)
    show "forward ks ?m embedding = Inr out" by (rule fw)
    show "shape out = [B, L, L]" by (rule outs)
    fix b i j assume "b < B"
    then show "elem out [b, i, j] = head_spec ks ?m embedding L D b i j" by (rule spec)
  qed
  from first second show ?thesis by (rule conjI)
qed

text \<open>As stated the claim fails for \<open>L = 0\<close>: the padded input of the first
  convolution is 2 by 2, smaller than the 3-by-3 kernel, and the layer rejects it.\<close>

theorem forward_head_counterexample:
  "forward demo_kernels demo_model empty_embedding =
     Inl (RuntimeError ''Kernel size can't be greater than actual input size'')"
  by (simp add: forward_def bind_exn_def pairwise_concat_def unsqueeze_def repeat_def
      cat_last_def permute_def conv2d_apply_def demo_model_def ContactPredictionModel_def
      empty_embedding_def Let_def upt_conv_Cons)

theorem forward_head_witness:
  "shape demo_embedding = [1, 2, 2] \<and>
   (\<exists>P. pairwise_concat demo_embedding = Inr P \<and> shape P = [1, 2, 2, 4] \<and>
      elem P [0, 0, 1, 1] = 2 \<and> elem P [0, 0, 1, 3] = 4) \<and>
   (\<exists>out. forward demo_kernels demo_model demo_embedding = Inr out \<and>
      shape out = [1, 2, 2] \<and>
      elem out [0, 1, 0] = head_spec demo_kernels demo_model demo_embedding 2 2 0 1 0)"
proof -
  have sh: "shape demo_embedding = [1, 2, 2]"
    by (simp add: demo_embedding_def)
  have pos: "(0::nat) < 2" by simp
  note t = forward_head [of demo_embedding 1 2 2 demo_kernels
      "\<lambda>oc c ky kx. 1" "\<lambda>oc. 0" "\<lambda>oc c ky kx. 1" "\<lambda>oc. 0", OF sh pos]
  from t [THEN conjunct1]
  obtain P where P: "pairwise_concat demo_embedding = Inr P" and Ps: "shape P = [1, 2, 2, 2 * 2]"
    and Pe: "\<forall>b < 1. \<forall>i < 2. \<forall>j < 2. \<forall>c < 2 * 2.
               elem P [b, i, j, c] =
                 (if c < 2 then elem demo_embedding [b, i, c] else elem demo_embedding [b, j, c - 2])"
    by (elim exE conjE)
  from Pe [rule_format, of 0 0 1 1] have p1: "elem P [0, 0, 1, 1] = 2"
    by (simp add: demo_embedding_def)
  from Pe [rule_format, of 0 0 1 3] have p3: "elem P [0, 0, 1, 3] = 4"
    by (simp add: demo_embedding_def)
  from Ps have ps: "shape P = [1, 2, 2, 4]" by simp
  from t [THEN conjunct2, folded demo_model_def]
  obtain out where out: "forward demo_kernels demo_model demo_embedding = Inr out"
    and os: "shape out = [1, 2, 2]"
    and oe: "\<forall>b < 1. \<forall>i < 2. \<forall>j < 2.
               elem out [b, i, j] = head_spec demo_kernels demo_model demo_embedding 2 2 b i j"
    by (elim exE conjE)
  have b0: "(0::nat) < 1" and i1: "(1::nat) < 2" by simp_all
  note o = oe [rule_format, OF b0 i1 pos]
  have first: "\<exists>P. pairwise_concat demo_embedding = Inr P \<and>
      shape P = [1, 2, 2, 4] \<and> elem P [0, 0, 1, 1] = 2 \<and> elem P [0, 0, 1, 3] = 4"
    by (intro exI [of _ P] conjI P ps p1 p3)
  have second: "\<exists>out. forward demo_kernels demo_model demo_embedding = Inr out \<and>
      shape out = [1, 2, 2] \<and>
      elem out [0, 1, 0] = head_spec demo_kernels demo_model demo_embedding 2 2 0 1 0"
    by (intro exI [of _ out] conjI out os o)
  from sh first second show ?thesis by (intro conjI)
qed

end
